theory Spec2Isabelle
  imports Complex_Main "HOL-Library.Word"
begin

unbundle bit_operations_syntax

section \<open>Geometry and pixel data\<close>

text \<open>
  A Go \<open>int\<close> is a 64-bit signed integer, modelled by the integer it denotes. Where
  the canvas size and the sizing policy compute a number that can leave the 64-bit range
  (a difference of coordinates, twice the terminal height), the wrap-around of Go's
  arithmetic is written out with \<open>wrap64\<close>. Colour channels are machine words, because
  the arithmetic on them shifts and truncates.
\<close>

definition is_int64 :: "int \<Rightarrow> bool" where
  "is_int64 n = (- (2 ^ 63) \<le> n \<and> n < 2 ^ 63)"

definition wrap64 :: "int \<Rightarrow> int" where
  \<comment> \<open>the 64-bit two's complement value of an exact result\<close>
  "wrap64 n = (n + 2 ^ 63) mod 2 ^ 64 - 2 ^ 63"

type_synonym point = "int \<times> int"

text \<open>\<open>image.Rectangle\<close>: \<open>Min\<close> is inclusive, \<open>Max\<close> is exclusive.\<close>

record rectangle =
  MinX :: int
  MinY :: int
  MaxX :: int
  MaxY :: int

definition Rect :: "int \<Rightarrow> int \<Rightarrow> int \<Rightarrow> int \<Rightarrow> rectangle" where
  \<comment> \<open>\<open>image.Rect\<close> swaps the coordinates of an axis given in the wrong order.\<close>
  "Rect x0 y0 x1 y1 =
     \<lparr>MinX = (if x0 > x1 then x1 else x0), MinY = (if y0 > y1 then y1 else y0),
      MaxX = (if x0 > x1 then x0 else x1), MaxY = (if y0 > y1 then y0 else y1)\<rparr>"

definition ZR :: rectangle where
  "ZR = \<lparr>MinX = 0, MinY = 0, MaxX = 0, MaxY = 0\<rparr>"

definition Dx :: "rectangle \<Rightarrow> int" where
  "Dx r = MaxX r - MinX r"

definition Dy :: "rectangle \<Rightarrow> int" where
  "Dy r = MaxY r - MinY r"

definition Empty :: "rectangle \<Rightarrow> bool" where
  "Empty r = (MinX r \<ge> MaxX r \<or> MinY r \<ge> MaxY r)"

definition In :: "point \<Rightarrow> rectangle \<Rightarrow> bool" where
  "In p r = (MinX r \<le> fst p \<and> fst p < MaxX r \<and> MinY r \<le> snd p \<and> snd p < MaxY r)"

definition Add :: "rectangle \<Rightarrow> point \<Rightarrow> rectangle" where
  "Add r p = \<lparr>MinX = MinX r + fst p, MinY = MinY r + snd p,
              MaxX = MaxX r + fst p, MaxY = MaxY r + snd p\<rparr>"

definition Intersect :: "rectangle \<Rightarrow> rectangle \<Rightarrow> rectangle" where
  "Intersect r s =
     (let r1 = \<lparr>MinX = (if MinX r < MinX s then MinX s else MinX r),
                MinY = (if MinY r < MinY s then MinY s else MinY r),
                MaxX = (if MaxX r > MaxX s then MaxX s else MaxX r),
                MaxY = (if MaxY r > MaxY s then MaxY s else MaxY r)\<rparr>
      in if Empty r1 then ZR else r1)"

text \<open>
  \<open>color.Color\<close> is an interface; a colour is modelled by what its \<open>RGBA()\<close> method
  returns, four \<open>uint32\<close> channels. \<open>color.RGBA\<close> holds four \<open>uint8\<close> channels.
\<close>

type_synonym color = "32 word \<times> 32 word \<times> 32 word \<times> 32 word"

type_synonym rgba = "8 word \<times> 8 word \<times> 8 word \<times> 8 word"

definition Transparent :: color where
  "Transparent = (0, 0, 0, 0)"

definition RGBA :: "rgba \<Rightarrow> color" where
  \<comment> \<open>\<open>color.RGBA.RGBA()\<close>: each channel \<open>c\<close> becomes \<open>c | c << 8\<close>.\<close>
  "RGBA c = (case c of (r, g, b, a) \<Rightarrow>
     (ucast r OR push_bit 8 (ucast r), ucast g OR push_bit 8 (ucast g),
      ucast b OR push_bit 8 (ucast b), ucast a OR push_bit 8 (ucast a)))"

text \<open>
  \<open>image.RGBA\<close> and \<open>image.Paletted\<close>: a rectangle and the pixels in it. The pixel
  buffer is indexed by the point; a point outside the rectangle has no pixel, so every
  write below is guarded by the rectangle and \<open>At\<close> answers the zero colour there.
  For a paletted image the palette lookup is already resolved: \<open>PColor\<close> gives the
  colour of the palette entry at a point.
\<close>

record rgba_image =
  Bounds :: rectangle
  Pix :: "point \<Rightarrow> rgba"

record paletted =
  PRect :: rectangle
  PColor :: "point \<Rightarrow> color"

definition RGBAAt :: "rgba_image \<Rightarrow> point \<Rightarrow> rgba" where
  "RGBAAt img p = (if In p (Bounds img) then Pix img p else (0, 0, 0, 0))"

definition NewRGBA :: "rectangle \<Rightarrow> rgba_image" where
  "NewRGBA r = \<lparr>Bounds = r, Pix = (\<lambda>p. (0, 0, 0, 0))\<rparr>"

text \<open>\<open>gif.GIF\<close>, with the disposal codes of \<open>image/gif\<close>.\<close>

record gif =
  Image :: "paletted list"
  Delay :: "int list"
  Disposal :: "8 word list"

definition DisposalNone :: "8 word" where
  "DisposalNone = 1"

definition DisposalBackground :: "8 word" where
  "DisposalBackground = 2"

definition DisposalPrevious :: "8 word" where
  "DisposalPrevious = 3"

section \<open>Canvas size\<close>

text \<open>
  \<open>getGifDimensions\<close> (core) and \<open>GetGIFDimensions\<close> (internal/gif): the four
  accumulators are declared with \<open>var\<close> and so start at zero; the loop lowers or
  raises them frame by frame.
\<close>

type_synonym extent = "int \<times> int \<times> int \<times> int"

definition dims_step :: "extent \<Rightarrow> paletted \<Rightarrow> extent" where
  "dims_step acc img = (case acc of (lowestX, lowestY, highestX, highestY) \<Rightarrow>
     (if MinX (PRect img) < lowestX then MinX (PRect img) else lowestX,
      if MinY (PRect img) < lowestY then MinY (PRect img) else lowestY,
      if MaxX (PRect img) > highestX then MaxX (PRect img) else highestX,
      if MaxY (PRect img) > highestY then MaxY (PRect img) else highestY))"

primrec dims_loop :: "extent \<Rightarrow> paletted list \<Rightarrow> extent" where
  "dims_loop acc [] = acc"
| "dims_loop acc (img # imgs) = dims_loop (dims_step acc img) imgs"

definition getGifDimensions :: "gif \<Rightarrow> int \<times> int" where
  "getGifDimensions g = (case dims_loop (0, 0, 0, 0) (Image g) of
     (lowestX, lowestY, highestX, highestY) \<Rightarrow>
       (wrap64 (highestX - lowestX), wrap64 (highestY - lowestY)))"

definition GetGIFDimensions :: "gif \<Rightarrow> int \<times> int" where
  "GetGIFDimensions g = (case dims_loop (0, 0, 0, 0) (Image g) of
     (lowestX, lowestY, highestX, highestY) \<Rightarrow>
       (wrap64 (highestX - lowestX), wrap64 (highestY - lowestY)))"

text \<open>
  Frames whose coordinates all lie in \<open>[-b, b)\<close>. With \<open>b = 2 ^ 62\<close> no difference
  of two coordinates leaves the 64-bit range.
\<close>

definition rect_within :: "int \<Rightarrow> rectangle \<Rightarrow> bool" where
  "rect_within b r =
     (- b \<le> MinX r \<and> MinX r < b \<and> - b \<le> MinY r \<and> MinY r < b
      \<and> - b \<le> MaxX r \<and> MaxX r < b \<and> - b \<le> MaxY r \<and> MaxY r < b)"

definition frames_within :: "int \<Rightarrow> gif \<Rightarrow> bool" where
  "frames_within b g = list_all (\<lambda>img. rect_within b (PRect img)) (Image g)"

text \<open>
  The bounding box as the specification words it: the largest maximum minus the smallest
  minimum over the frames, on each axis.
\<close>

definition bounding_box_size :: "paletted list \<Rightarrow> int \<times> int" where
  "bounding_box_size imgs =
     (Max (set (map (\<lambda>i. MaxX (PRect i)) imgs)) - Min (set (map (\<lambda>i. MinX (PRect i)) imgs)),
      Max (set (map (\<lambda>i. MaxY (PRect i)) imgs)) - Min (set (map (\<lambda>i. MinY (PRect i)) imgs)))"

text \<open>
  A GIF of one 32 by 32 frame placed at offset (16, 16), and a GIF of one frame so wide
  that the width of the canvas does not fit in 64 bits.
\<close>

definition wide_gif :: gif where
  "wide_gif = \<lparr>Image = [\<lparr>PRect = Rect (- 1) 0 (2 ^ 63 - 1) 1, PColor = (\<lambda>p. Transparent)\<rparr>],
                 Delay = [10], Disposal = [DisposalNone]\<rparr>"

definition offset_frame :: paletted where
  "offset_frame = \<lparr>PRect = Rect 16 16 48 48, PColor = (\<lambda>p. Transparent)\<rparr>"

definition offset_gif :: gif where
  "offset_gif = \<lparr>Image = [offset_frame], Delay = [10], Disposal = [DisposalNone]\<rparr>"

section \<open>Playback controller\<close>

text \<open>
  Go's integer division truncates towards zero and \<open>%\<close> takes the sign of the dividend;
  both panic on a zero divisor, which every use below rules out beforehand.
\<close>

definition go_quot :: "int \<Rightarrow> int \<Rightarrow> int" where
  "go_quot a b = sgn a * sgn b * (\<bar>a\<bar> div \<bar>b\<bar>)"

definition go_rem :: "int \<Rightarrow> int \<Rightarrow> int" where
  "go_rem a b = a - b * go_quot a b"

record progressMsg =
  partialFrame :: string
  rowsComplete :: int
  totalRows :: int

text \<open>
  The messages \<open>Update\<close> dispatches on. A key message carries what \<open>msg.String()\<close>
  returns; any other message of the framework is \<open>OtherMsg\<close>.
\<close>

datatype msg =
    KeyMsg string
  | FrameMsg
  | ProgressMsg progressMsg
  | ProcessingCompleteMsg
  | WindowSizeMsg int int
  | OtherMsg

text \<open>
  A \<open>tea.Cmd\<close> as a value: \<open>nil\<close>, the closure returned by \<open>ProcessGIF\<close> (one
  run of the processing pipeline), a \<open>tea.Tick\<close> with its duration in milliseconds,
  and \<open>tea.Quit\<close>.
\<close>

datatype cmd = NoCmd | ProcessGIFCmd | TickCmd int | QuitCmd

record model =
  GIF :: gif
  Frames :: "string list"
  CurrentFrame :: int
  Width :: int
  Height :: int
  Paused :: bool
  ShowHelp :: bool
  Ready :: bool
  Loading :: bool
  LoadingFrame :: string
  LoadingRows :: int
  TotalRows :: int

definition nextFrame :: "model \<Rightarrow> cmd" where
  "nextFrame m =
     (if CurrentFrame m < 0 \<or> CurrentFrame m \<ge> int (length (Delay (GIF m))) then NoCmd
      else let delay = Delay (GIF m) ! nat (CurrentFrame m);
               delay = (if delay = 0 then 10 else delay)
           in TickCmd (delay * 10))"

definition Init :: "model \<Rightarrow> model \<times> cmd" where
  "Init m = (m\<lparr>Loading := True\<rparr>, ProcessGIFCmd)"

definition handleKeyPress :: "model \<Rightarrow> string \<Rightarrow> model \<times> cmd" where
  "handleKeyPress m key =
     (if key = ''space'' then
        (let m1 = m\<lparr>Paused := \<not> Paused m\<rparr>
         in if \<not> Paused m1 \<and> Ready m1 then (m1, nextFrame m1) else (m1, NoCmd))
      else if key = ''?'' then (m\<lparr>ShowHelp := \<not> ShowHelp m\<rparr>, NoCmd)
      else if key = ''n'' \<or> key = ''right'' then
        (if length (Frames m) > 0
         then (m\<lparr>Paused := True,
                  CurrentFrame := go_rem (CurrentFrame m + 1) (int (length (Frames m)))\<rparr>, NoCmd)
         else (m, NoCmd))
      else if key = ''p'' \<or> key = ''left'' then
        (if length (Frames m) > 0
         then (m\<lparr>Paused := True,
                  CurrentFrame := go_rem (CurrentFrame m - 1 + int (length (Frames m)))
                                         (int (length (Frames m)))\<rparr>, NoCmd)
         else (m, NoCmd))
      else if key = ''q'' \<or> key = ''ctrl+c'' then (m, QuitCmd)
      else (m, NoCmd))"

definition handleFrameAdvance :: "model \<Rightarrow> model \<times> cmd" where
  "handleFrameAdvance m =
     (if \<not> Paused m \<and> Ready m \<and> length (Frames m) > 0
      then (let m1 = m\<lparr>CurrentFrame := go_rem (CurrentFrame m + 1) (int (length (Frames m)))\<rparr>
            in (m1, nextFrame m1))
      else (m, NoCmd))"

definition handleProgress :: "model \<Rightarrow> progressMsg \<Rightarrow> model \<times> cmd" where
  "handleProgress m p =
     (if Loading m \<and> \<not> Ready m
      then (m\<lparr>LoadingFrame := partialFrame p, LoadingRows := rowsComplete p,
               TotalRows := totalRows p\<rparr>, NoCmd)
      else (m, NoCmd))"

definition handleProcessingComplete :: "model \<Rightarrow> model \<times> cmd" where
  "handleProcessingComplete m =
     (let m1 = m\<lparr>Ready := True, Loading := False, CurrentFrame := 0\<rparr>
      in if \<not> Paused m1 then (m1, nextFrame m1) else (m1, NoCmd))"

definition handleWindowResize :: "model \<Rightarrow> int \<Rightarrow> int \<Rightarrow> model \<times> cmd" where
  "handleWindowResize m w h =
     (let oldWidth = Width m; oldHeight = Height m;
          m1 = m\<lparr>Width := w, Height := h\<rparr>
      in if oldWidth = 0 \<or> oldHeight = 0 then (m1, NoCmd)
         else if oldWidth = Width m1 \<and> oldHeight = Height m1 then (m1, NoCmd)
         else if Loading m1 then (m1, NoCmd)
         else (m1\<lparr>Ready := False, Loading := True, LoadingFrame := [], LoadingRows := 0,
                   TotalRows := 0, Frames := []\<rparr>, ProcessGIFCmd))"

fun Update :: "model \<Rightarrow> msg \<Rightarrow> model \<times> cmd" where
  "Update m (KeyMsg key) = handleKeyPress m key"
| "Update m FrameMsg = handleFrameAdvance m"
| "Update m (ProgressMsg p) = handleProgress m p"
| "Update m ProcessingCompleteMsg = handleProcessingComplete m"
| "Update m (WindowSizeMsg w h) = handleWindowResize m w h"
| "Update m OtherMsg = (m, NoCmd)"

text \<open>
  A controller in the middle of its first processing run, as \<open>Run\<close> and \<open>Init\<close> leave
  it once the terminal has reported 80 by 40 cells, for a GIF of one frame.
\<close>

definition one_frame_gif :: gif where
  "one_frame_gif = \<lparr>Image = [\<lparr>PRect = Rect 0 0 1 1, PColor = (\<lambda>p. Transparent)\<rparr>],
                     Delay = [10], Disposal = [DisposalNone]\<rparr>"

definition loading_model :: model where
  "loading_model = \<lparr>GIF = one_frame_gif, Frames = [], CurrentFrame = 0, Width = 80,
     Height = 40, Paused = False, ShowHelp = False, Ready = False, Loading = True,
     LoadingFrame = [], LoadingRows = 0, TotalRows = 0\<rparr>"

section \<open>Sizing policy\<close>

text \<open>
  \<open>calculateImageSize\<close> computes in \<open>float64\<close>. A finite binary64 value is
  modelled by the rational number it denotes, and an operation by the exact result
  rounded to 53 significant bits, ties to even, as IEEE 754 prescribes. \<open>None\<close> stands
  for every value the model does not follow: NaN, the infinities, and results outside the
  normal range (which operands that come from 64-bit integers never reach). The sign of
  a zero is dropped; it shows only in a division by zero, which is \<open>None\<close> either way.
\<close>

function bit_length :: "int \<Rightarrow> int" where
  "bit_length k = (if k \<le> 0 then 0 else 1 + bit_length (k div 2))"
  by pat_completeness auto
termination
  by (relation "measure nat") auto

declare bit_length.simps [simp del]

definition pow2 :: "int \<Rightarrow> rat" where
  "pow2 e = (if 0 \<le> e then 2 ^ nat e else 1 / 2 ^ nat (- e))"

definition floor_log2 :: "rat \<Rightarrow> int" where
  \<comment> \<open>the exponent \<open>e\<close> with \<open>2 ^ e \<le> q < 2 ^ (e + 1)\<close>, for \<open>q > 0\<close>\<close>
  "floor_log2 q =
     (if 1 \<le> q then bit_length \<lfloor>q\<rfloor> - 1 else - bit_length (\<lceil>1 / q\<rceil> - 1))"

definition round_half_even :: "rat \<Rightarrow> int" where
  "round_half_even q =
     (let f = \<lfloor>q\<rfloor>; d = q - of_int f
      in if d < 1 / 2 then f else if 1 / 2 < d then f + 1 else if even f then f else f + 1)"

definition round64 :: "rat \<Rightarrow> rat option" where
  "round64 q =
     (if q = 0 then Some 0
      else let e = floor_log2 \<bar>q\<bar>
           in if e < - 1022 \<or> 1023 < e then None
              else let n = round_half_even (\<bar>q\<bar> / pow2 (e - 52))
                   in if e = 1023 \<and> n = 2 ^ 53 then None
                      else Some (sgn q * (of_int n * pow2 (e - 52))))"

type_synonym float64 = "rat option"

definition f64_of_int :: "int \<Rightarrow> float64" where
  \<comment> \<open>the conversion \<open>float64(n)\<close>\<close>
  "f64_of_int n = round64 (of_int n)"

definition f64_mul :: "float64 \<Rightarrow> float64 \<Rightarrow> float64" where
  "f64_mul x y =
     (case x of None \<Rightarrow> None
      | Some a \<Rightarrow> (case y of None \<Rightarrow> None | Some b \<Rightarrow> round64 (a * b)))"

definition f64_div :: "float64 \<Rightarrow> float64 \<Rightarrow> float64" where
  \<comment> \<open>a zero divisor gives an infinity or NaN\<close>
  "f64_div x y =
     (case x of None \<Rightarrow> None
      | Some a \<Rightarrow> (case y of None \<Rightarrow> None
                   | Some b \<Rightarrow> if b = 0 then None else round64 (a / b)))"

definition int_of_f64 :: "float64 \<Rightarrow> int option" where
  \<comment> \<open>the conversion \<open>int(x)\<close>: the fraction is discarded; the result for a value that
     \<open>int\<close> cannot hold is implementation-dependent, here \<open>None\<close>\<close>
  "int_of_f64 x =
     (case x of None \<Rightarrow> None
      | Some a \<Rightarrow>
          let t = (if a < 0 then - \<lfloor>- a\<rfloor> else \<lfloor>a\<rfloor>)
          in if - (2 ^ 63) \<le> t \<and> t < 2 ^ 63 then Some t else None)"

text \<open>
  \<open>model.calculateImageSize\<close> (core), on the terminal size \<open>W\<close>, \<open>H\<close> held by the
  model and the width \<open>dx\<close> and height \<open>dy\<close> of the image's bounds, all Go
  \<open>int\<close>s. \<open>m.Height*2\<close> wraps around in 64 bits. \<open>None\<close>: Go leaves the result to
  the implementation.
\<close>

definition calculateImageSize :: "int \<Rightarrow> int \<Rightarrow> int \<Rightarrow> int \<Rightarrow> (int \<times> int) option" where
  "calculateImageSize W H dx dy =
     (let maxWidth = go_quot W 2;
          ratio = f64_div (f64_of_int dy) (f64_of_int dx)
      in case int_of_f64 (f64_mul (f64_mul (f64_of_int maxWidth) ratio) (Some 2)) of
           None \<Rightarrow> None
         | Some targetHeight \<Rightarrow>
             if targetHeight > wrap64 (H * 2)
             then (case int_of_f64
                         (f64_div (f64_div (f64_of_int (wrap64 (H * 2))) ratio) (Some 2)) of
                     None \<Rightarrow> None
                   | Some maxWidth1 \<Rightarrow> Some (maxWidth1, wrap64 (H * 2)))
             else Some (maxWidth, targetHeight))"

text \<open>\<open>Processor.calculateImageSize\<close> (internal/gif), on the processor's fields.\<close>

record Processor =
  p_gif :: gif
  p_width :: int
  p_height :: int

definition Processor_calculateImageSize :: "Processor \<Rightarrow> int \<Rightarrow> int \<Rightarrow> (int \<times> int) option" where
  "Processor_calculateImageSize p dx dy =
     (let maxWidth = go_quot (p_width p) 2;
          ratio = f64_div (f64_of_int dy) (f64_of_int dx)
      in case int_of_f64 (f64_mul (f64_mul (f64_of_int maxWidth) ratio) (Some 2)) of
           None \<Rightarrow> None
         | Some targetHeight \<Rightarrow>
             if targetHeight > wrap64 (p_height p * 2)
             then (case int_of_f64
                         (f64_div (f64_div (f64_of_int (wrap64 (p_height p * 2))) ratio)
                            (Some 2)) of
                     None \<Rightarrow> None
                   | Some maxWidth1 \<Rightarrow> Some (maxWidth1, wrap64 (p_height p * 2)))
             else Some (maxWidth, targetHeight))"

text \<open>
  The sizing policy as the specification words it, in exact arithmetic: the available
  width is the terminal's column count, the target height is
  \<open>columns * (sourceHeight / sourceWidth) * 2\<close>, clamped to \<open>rows * 2\<close> with the width
  recomputed as \<open>height / ratio / 2\<close>.
\<close>

definition spec_calculateImageSize :: "int \<Rightarrow> int \<Rightarrow> int \<Rightarrow> int \<Rightarrow> int \<times> int" where
  "spec_calculateImageSize W H dx dy =
     (let ratio = (of_int dy :: rat) / of_int dx;
          targetHeight = of_int W * ratio * 2
      in if targetHeight > of_int (H * 2)
         then (\<lfloor>of_int (H * 2) / ratio / 2\<rfloor>, H * 2)
         else (W, \<lfloor>targetHeight\<rfloor>))"

section \<open>Half-block rasterizer\<close>

text \<open>
  The styling library (lipgloss) and the resampling library (nfnt/resize) are not part of
  the repository. A style is the record of what the code sets on it, and the two library
  calls are parameters: \<open>render\<close> turns a style and a text into the styled text, and
  \<open>resize\<close> scales an image to the width and height it is given as \<open>uint\<close>.
\<close>

record style =
  Foreground :: "string option"
  Background :: "string option"

type_synonym styler = "style \<Rightarrow> string \<Rightarrow> string"

text \<open>An \<open>image.Image\<close>: its bounds and the colour at each point.\<close>

record image =
  IBounds :: rectangle
  IAt :: "point \<Rightarrow> color"

type_synonym resizer = "nat \<Rightarrow> nat \<Rightarrow> image \<Rightarrow> image"

definition uint_of_int :: "int \<Rightarrow> nat" where
  \<comment> \<open>the conversion \<open>uint(n)\<close>\<close>
  "uint_of_int n = nat (n mod 2 ^ 64)"

definition as_image :: "rgba_image \<Rightarrow> image" where
  \<comment> \<open>an \<open>*image.RGBA\<close> seen through the \<open>image.Image\<close> interface\<close>
  "as_image img = \<lparr>IBounds = Bounds img, IAt = (\<lambda>p. RGBA (RGBAAt img p))\<rparr>"

definition hexdigit :: "nat \<Rightarrow> char" where
  "hexdigit n = ''0123456789abcdef'' ! n"

definition hex02 :: "8 word \<Rightarrow> string" where
  \<comment> \<open>the verb \<open>%02x\<close> on a \<open>uint8\<close>\<close>
  "hex02 b = [hexdigit (unat b div 16), hexdigit (unat b mod 16)]"

definition hexColor :: "32 word \<Rightarrow> 32 word \<Rightarrow> 32 word \<Rightarrow> string" where
  \<comment> \<open>\<open>fmt.Sprintf("#%02x%02x%02x", uint8(r>>8), uint8(g>>8), uint8(b>>8))\<close>\<close>
  "hexColor r g b =
     CHR ''#'' # hex02 (ucast (drop_bit 8 r)) @ hex02 (ucast (drop_bit 8 g))
       @ hex02 (ucast (drop_bit 8 b))"

text \<open>The glyphs U+2580 (upper half block) and U+2584 (lower half block), in UTF-8.\<close>

definition upperHalf :: string where
  "upperHalf = [CHR 0xE2, CHR 0x96, CHR 0x80]"

definition lowerHalf :: string where
  "lowerHalf = [CHR 0xE2, CHR 0x96, CHR 0x84]"

definition renderHalfBlockChar :: "styler \<Rightarrow> color \<Rightarrow> color \<Rightarrow> string" where
  "renderHalfBlockChar render topColor bottomColor =
     (case topColor of (topR, topG, topB, topA) \<Rightarrow>
      case bottomColor of (bottomR, bottomG, bottomB, bottomA) \<Rightarrow>
        if topA = 0 \<and> bottomA = 0 then ''  ''
        else if topA = 0 then
          render \<lparr>Foreground = Some (hexColor bottomR bottomG bottomB), Background = None\<rparr>
            (lowerHalf @ lowerHalf)
        else if bottomA = 0 then
          render \<lparr>Foreground = Some (hexColor topR topG topB), Background = None\<rparr>
            (upperHalf @ upperHalf)
        else
          render \<lparr>Foreground = Some (hexColor topR topG topB),
                  Background = Some (hexColor bottomR bottomG bottomB)\<rparr>
            (upperHalf @ upperHalf))"

text \<open>The copy of \<open>renderHalfBlockChar\<close> in package internal/gif.\<close>

definition gif_renderHalfBlockChar :: "styler \<Rightarrow> color \<Rightarrow> color \<Rightarrow> string" where
  "gif_renderHalfBlockChar render topColor bottomColor =
     (case topColor of (topR, topG, topB, topA) \<Rightarrow>
      case bottomColor of (bottomR, bottomG, bottomB, bottomA) \<Rightarrow>
        if topA = 0 \<and> bottomA = 0 then ''  ''
        else if topA = 0 then
          render \<lparr>Foreground = Some (hexColor bottomR bottomG bottomB), Background = None\<rparr>
            (lowerHalf @ lowerHalf)
        else if bottomA = 0 then
          render \<lparr>Foreground = Some (hexColor topR topG topB), Background = None\<rparr>
            (upperHalf @ upperHalf)
        else
          render \<lparr>Foreground = Some (hexColor topR topG topB),
                  Background = Some (hexColor bottomR bottomG bottomB)\<rparr>
            (upperHalf @ upperHalf))"

text \<open>
  The row loop of \<open>model.renderImageHalfBlock\<close>: \<open>y\<close> steps by two from
  \<open>bounds.Min.Y\<close>, \<open>sb\<close> is the string builder, \<open>sent\<close> the progress messages put
  on the channel so far, and \<open>chan\<close> tells whether \<open>progressChan\<close> is not \<open>nil\<close>.
\<close>

definition render_row :: "styler \<Rightarrow> image \<Rightarrow> int \<Rightarrow> string" where
  "render_row render resized y =
     concat (map (\<lambda>x. renderHalfBlockChar render (IAt resized (x, y))
                         (if y + 1 < MaxY (IBounds resized) then IAt resized (x, y + 1)
                          else Transparent))
                 [MinX (IBounds resized) .. MaxX (IBounds resized) - 1])"

function render_rows ::
  "styler \<Rightarrow> image \<Rightarrow> bool \<Rightarrow> int \<Rightarrow> int \<Rightarrow> string \<Rightarrow> int \<Rightarrow> progressMsg list
     \<Rightarrow> string \<times> progressMsg list" where
  "render_rows render resized chan total_rows y sb currentRow sent =
     (if y < MaxY (IBounds resized) then
        (let sb1 = sb @ render_row render resized y @ [CHR 0x0A];
             currentRow1 = currentRow + 1;
             sent1 = (if chan \<and> (go_rem currentRow1 2 = 0 \<or> y + 2 \<ge> MaxY (IBounds resized))
                      then sent @ [\<lparr>partialFrame = sb1, rowsComplete = currentRow1,
                                    totalRows = total_rows\<rparr>]
                      else sent)
         in render_rows render resized chan total_rows (y + 2) sb1 currentRow1 sent1)
      else (sb, sent))"
  by pat_completeness auto
termination
  by (relation "measure (\<lambda>(render, resized, chan, total_rows, y, sb, currentRow, sent).
        nat (MaxY (IBounds resized) - y))") auto

declare render_rows.simps [simp del]

datatype failure =
    IndexOutOfRange \<comment> \<open>the run-time panic of an index past the end of a slice\<close>
  | Unspecified \<comment> \<open>a size that Go leaves to the implementation\<close>

definition renderImageHalfBlock ::
  "styler \<Rightarrow> resizer \<Rightarrow> int \<Rightarrow> int \<Rightarrow> image \<Rightarrow> bool
     \<Rightarrow> failure + string \<times> progressMsg list" where
  \<comment> \<open>\<open>W\<close> and \<open>H\<close> are \<open>m.Width\<close> and \<open>m.Height\<close> as the call reads them; the result
     is the text returned and the messages sent on the channel\<close>
  "renderImageHalfBlock render resize W H img chan =
     (case calculateImageSize W H (Dx (IBounds img)) (Dy (IBounds img)) of
        None \<Rightarrow> Inl Unspecified
      | Some (w, h) \<Rightarrow>
          (let resized = resize (uint_of_int w) (uint_of_int h) img;
               bounds = IBounds resized;
               total_rows = go_quot (MaxY bounds - MinY bounds + 1) 2
           in Inr (render_rows render resized chan total_rows (MinY bounds) [] 0 [])))"

text \<open>\<open>Processor.renderHalfBlock\<close> (internal/gif), with its own row loop.\<close>

definition gif_render_row :: "styler \<Rightarrow> image \<Rightarrow> int \<Rightarrow> string" where
  "gif_render_row render resized y =
     concat (map (\<lambda>x. gif_renderHalfBlockChar render (IAt resized (x, y))
                         (if y + 1 < MaxY (IBounds resized) then IAt resized (x, y + 1)
                          else Transparent))
                 [MinX (IBounds resized) .. MaxX (IBounds resized) - 1])"

function gif_render_rows ::
  "styler \<Rightarrow> image \<Rightarrow> bool \<Rightarrow> int \<Rightarrow> int \<Rightarrow> string \<Rightarrow> int \<Rightarrow> progressMsg list
     \<Rightarrow> string \<times> progressMsg list" where
  "gif_render_rows render resized chan total_rows y sb currentRow sent =
     (if y < MaxY (IBounds resized) then
        (let sb1 = sb @ gif_render_row render resized y @ [CHR 0x0A];
             currentRow1 = currentRow + 1;
             sent1 = (if chan \<and> (go_rem currentRow1 2 = 0 \<or> y + 2 \<ge> MaxY (IBounds resized))
                      then sent @ [\<lparr>partialFrame = sb1, rowsComplete = currentRow1,
                                    totalRows = total_rows\<rparr>]
                      else sent)
         in gif_render_rows render resized chan total_rows (y + 2) sb1 currentRow1 sent1)
      else (sb, sent))"
  by pat_completeness auto
termination
  by (relation "measure (\<lambda>(render, resized, chan, total_rows, y, sb, currentRow, sent).
        nat (MaxY (IBounds resized) - y))") auto

declare gif_render_rows.simps [simp del]

definition renderHalfBlock ::
  "styler \<Rightarrow> resizer \<Rightarrow> Processor \<Rightarrow> image \<Rightarrow> bool \<Rightarrow> failure + string \<times> progressMsg list" where
  "renderHalfBlock render resize p img chan =
     (case Processor_calculateImageSize p (Dx (IBounds img)) (Dy (IBounds img)) of
        None \<Rightarrow> Inl Unspecified
      | Some (w, h) \<Rightarrow>
          (let resized = resize (uint_of_int w) (uint_of_int h) img;
               bounds = IBounds resized;
               total_rows = go_quot (MaxY bounds - MinY bounds + 1) 2
           in Inr (gif_render_rows render resized chan total_rows (MinY bounds) [] 0 [])))"

section \<open>Canvas compositor\<close>

text \<open>
  \<open>draw.Draw(dst, r, src, sp, op)\<close> of the standard library, for the three kinds of call
  the compositor makes. \<open>clip\<close> cuts \<open>r\<close> down to the destination and to the source
  moved onto \<open>r\<close>, and moves \<open>sp\<close> along; each pixel of the clipped rectangle is then
  written from the source pixel at the same offset.
\<close>

definition clip :: "rectangle \<Rightarrow> rectangle \<Rightarrow> rectangle \<Rightarrow> point \<Rightarrow> rectangle \<times> point" where
  "clip dstBounds r srcBounds sp =
     (let orig = (MinX r, MinY r);
          r1 = Intersect r dstBounds;
          r2 = Intersect r1 (Add srcBounds (fst orig - fst sp, snd orig - snd sp));
          dx = MinX r2 - fst orig;
          dy = MinY r2 - snd orig
      in (r2, (fst sp + dx, snd sp + dy)))"

definition draw_pixels ::
  "rgba_image \<Rightarrow> rectangle \<times> point \<Rightarrow> (point \<Rightarrow> rgba \<Rightarrow> rgba) \<Rightarrow> rgba_image" where
  \<comment> \<open>the pixel loops: \<open>f\<close> gets the source point and the old destination pixel\<close>
  "draw_pixels dst clipped f =
     (case clipped of (r, sp) \<Rightarrow>
        dst\<lparr>Pix := (\<lambda>p. if In p r
                         then f (fst sp + (fst p - MinX r), snd sp + (snd p - MinY r)) (Pix dst p)
                         else Pix dst p)\<rparr>)"

text \<open>Source \<open>*image.RGBA\<close>, operator \<open>draw.Src\<close>: the rows are copied.\<close>

definition DrawSrcRGBA :: "rgba_image \<Rightarrow> rectangle \<Rightarrow> rgba_image \<Rightarrow> point \<Rightarrow> rgba_image" where
  "DrawSrcRGBA dst r src sp =
     draw_pixels dst (clip (Bounds dst) r (Bounds src) sp) (\<lambda>q d. Pix src q)"

text \<open>
  Source \<open>&image.Uniform{c}\<close>, operator \<open>draw.Src\<close>: the rectangle is filled with the
  high bytes of the colour. A uniform image is unbounded (plus and minus 1e9).
\<close>

definition UniformBounds :: rectangle where
  "UniformBounds = \<lparr>MinX = - 1000000000, MinY = - 1000000000,
                    MaxX = 1000000000, MaxY = 1000000000\<rparr>"

definition DrawSrcUniform :: "rgba_image \<Rightarrow> rectangle \<Rightarrow> color \<Rightarrow> point \<Rightarrow> rgba_image" where
  "DrawSrcUniform dst r c sp =
     draw_pixels dst (clip (Bounds dst) r UniformBounds sp)
       (\<lambda>q d. case c of (sr, sg, sb, sa) \<Rightarrow>
          (ucast (drop_bit 8 sr), ucast (drop_bit 8 sg), ucast (drop_bit 8 sb),
           ucast (drop_bit 8 sa)))"

text \<open>
  Source \<open>*image.Paletted\<close>, operator \<open>draw.Over\<close>: the general loop blends each
  source colour over the destination pixel in 32-bit unsigned arithmetic, with no mask
  (\<open>ma = m = 0xffff\<close>).
\<close>

definition over_channel :: "32 word \<Rightarrow> 32 word \<Rightarrow> 8 word \<Rightarrow> 8 word" where
  "over_channel a s d = ucast (drop_bit 8 ((ucast d * a + s * 0xffff) div 0xffff))"

definition over_pixel :: "color \<Rightarrow> rgba \<Rightarrow> rgba" where
  "over_pixel c d =
     (case c of (sr, sg, sb, sa) \<Rightarrow> case d of (dr, dg, db, da) \<Rightarrow>
        let a = (0xffff - (sa * 0xffff div 0xffff)) * 0x101
        in (over_channel a sr dr, over_channel a sg dg, over_channel a sb db,
            over_channel a sa da))"

definition DrawOverPaletted :: "rgba_image \<Rightarrow> rectangle \<Rightarrow> paletted \<Rightarrow> point \<Rightarrow> rgba_image" where
  "DrawOverPaletted dst r src sp =
     draw_pixels dst (clip (Bounds dst) r (PRect src) sp) (\<lambda>q d. over_pixel (PColor src q) d)"

text \<open>\<open>processFrame\<close> (core): the disposal of the previous frame.\<close>

definition processFrame :: "rgba_image \<Rightarrow> rgba_image \<Rightarrow> paletted \<Rightarrow> 8 word \<Rightarrow> rgba_image" where
  "processFrame currentImg previousImg srcImg disposal =
     (if disposal = DisposalBackground
      then DrawSrcUniform currentImg (PRect srcImg) Transparent (0, 0)
      else if disposal = DisposalPrevious
      then DrawSrcRGBA currentImg (Bounds currentImg) previousImg (0, 0)
      else currentImg)"

text \<open>
  The frame loop of \<open>model.ProcessGIF\<close>. The loop state holds \<open>currentImage\<close>,
  \<open>previousImage\<close>, the \<open>frames\<close> slice and the progress messages sent. One pass of
  the body is split where the properties below look at the canvas: \<open>dispose\<close> is the body up to
  the disposal of the previous frame (the canvas frame \<open>i\<close> is then drawn on),
  \<open>composite\<close> adds the drawing of frame \<open>i\<close>, and \<open>ProcessGIF_body\<close> adds the copy
  and its rendering. \<open>m.GIF.Disposal[i-1]\<close> panics when the slice is too short.
\<close>

type_synonym canvases = "rgba_image \<times> rgba_image"

definition dispose :: "gif \<Rightarrow> nat \<Rightarrow> canvases \<Rightarrow> failure + canvases" where
  "dispose g i st =
     (case st of (currentImage, previousImage) \<Rightarrow>
        if i > 0 then
          (if i - 1 < length (Disposal g) then
             (let previousImage1 =
                    (if Disposal g ! (i - 1) = DisposalPrevious
                     then DrawSrcRGBA previousImage (Bounds previousImage) currentImage (0, 0)
                     else previousImage)
              in Inr (processFrame currentImage previousImage1 (Image g ! (i - 1))
                        (Disposal g ! (i - 1)), previousImage1))
           else Inl IndexOutOfRange)
        else Inr (currentImage, previousImage))"

definition composite :: "gif \<Rightarrow> nat \<Rightarrow> canvases \<Rightarrow> failure + canvases" where
  "composite g i st =
     (case dispose g i st of
        Inl e \<Rightarrow> Inl e
      | Inr (currentImage, previousImage) \<Rightarrow>
          Inr (DrawOverPaletted currentImage (Bounds currentImage) (Image g ! i) (0, 0),
               previousImage))"

record loop_state =
  canvas :: canvases
  frames :: "string list"
  sent :: "progressMsg list"

definition ProcessGIF_body ::
  "styler \<Rightarrow> resizer \<Rightarrow> (nat \<Rightarrow> int \<times> int) \<Rightarrow> gif \<Rightarrow> nat \<Rightarrow> loop_state
     \<Rightarrow> failure + loop_state" where
  \<comment> \<open>\<open>wh i\<close> is the terminal size the model holds when frame \<open>i\<close> is rendered\<close>
  "ProcessGIF_body render resize wh g i st =
     (case composite g i (canvas st) of
        Inl e \<Rightarrow> Inl e
      | Inr (currentImage, previousImage) \<Rightarrow>
          (let imgCopy = DrawSrcRGBA (NewRGBA (Bounds currentImage)) (Bounds currentImage)
                           currentImage (0, 0)
           in case renderImageHalfBlock render resize (fst (wh i)) (snd (wh i))
                     (as_image imgCopy) (i = 0) of
                Inl e \<Rightarrow> Inl e
              | Inr (txt, msgs) \<Rightarrow>
                  Inr \<lparr>canvas = (currentImage, previousImage),
                       frames = (frames st)[i := txt], sent = sent st @ msgs\<rparr>))"

fun ProcessGIF_loop ::
  "styler \<Rightarrow> resizer \<Rightarrow> (nat \<Rightarrow> int \<times> int) \<Rightarrow> gif \<Rightarrow> nat list \<Rightarrow> loop_state
     \<Rightarrow> failure + loop_state" where
  "ProcessGIF_loop render resize wh g [] st = Inr st"
| "ProcessGIF_loop render resize wh g (i # rest) st =
     (case ProcessGIF_body render resize wh g i st of
        Inl e \<Rightarrow> Inl e
      | Inr st1 \<Rightarrow> ProcessGIF_loop render resize wh g rest st1)"

definition initial_canvases :: "int \<times> int \<Rightarrow> canvases" where
  "initial_canvases d = (NewRGBA (Rect 0 0 (fst d) (snd d)), NewRGBA (Rect 0 0 (fst d) (snd d)))"

definition ProcessGIF ::
  "styler \<Rightarrow> resizer \<Rightarrow> (nat \<Rightarrow> int \<times> int) \<Rightarrow> gif
     \<Rightarrow> failure + string list \<times> progressMsg list" where
  \<comment> \<open>the frames the command stores in \<open>m.Frames\<close> before it returns
     \<open>processingCompleteMsg\<close>, and the progress messages it sends\<close>
  "ProcessGIF render resize wh g =
     (case ProcessGIF_loop render resize wh g [0 ..< length (Image g)]
             \<lparr>canvas = initial_canvases (getGifDimensions g),
              frames = replicate (length (Image g)) [], sent = []\<rparr> of
        Inl e \<Rightarrow> Inl e
      | Inr st \<Rightarrow> Inr (frames st, sent st))"

text \<open>
  The canvases on entry to pass \<open>i\<close> of the loop, and the canvas frame \<open>i\<close> is drawn
  on, both by running the compositing part of the passes before.
\<close>

primrec canvases_before :: "gif \<Rightarrow> nat \<Rightarrow> failure + canvases" where
  "canvases_before g 0 = Inr (initial_canvases (getGifDimensions g))"
| "canvases_before g (Suc i) =
     (case canvases_before g i of Inl e \<Rightarrow> Inl e | Inr st \<Rightarrow> composite g i st)"

definition base_canvas :: "gif \<Rightarrow> nat \<Rightarrow> failure + rgba_image" where
  "base_canvas g i =
     (case canvases_before g i of
        Inl e \<Rightarrow> Inl e
      | Inr st \<Rightarrow> (case dispose g i st of Inl e \<Rightarrow> Inl e | Inr st1 \<Rightarrow> Inr (fst st1)))"

definition saved_canvas :: "gif \<Rightarrow> nat \<Rightarrow> failure + rgba_image" where
  \<comment> \<open>\<open>previousImage\<close> at the moment frame \<open>i\<close> is drawn\<close>
  "saved_canvas g i =
     (case canvases_before g i of
        Inl e \<Rightarrow> Inl e
      | Inr st \<Rightarrow> (case dispose g i st of Inl e \<Rightarrow> Inl e | Inr st1 \<Rightarrow> Inr (snd st1)))"

definition drawn_canvas :: "gif \<Rightarrow> nat \<Rightarrow> failure + rgba_image" where
  \<comment> \<open>\<open>currentImage\<close> once frame \<open>i\<close> is drawn\<close>
  "drawn_canvas g i =
     (case canvases_before g (Suc i) of Inl e \<Rightarrow> Inl e | Inr st \<Rightarrow> Inr (fst st))"

text \<open>
  \<open>Processor.ProcessAllFrames\<close> (internal/gif): the same loop with the disposal
  switch written in place, and the progress channel used only when the caller gave one.
\<close>

definition ProcessAllFrames_body ::
  "styler \<Rightarrow> resizer \<Rightarrow> Processor \<Rightarrow> bool \<Rightarrow> nat \<Rightarrow> loop_state \<Rightarrow> failure + loop_state" where
  "ProcessAllFrames_body render resize p chan i st =
     (case canvas st of (currentImage, previousImage) \<Rightarrow>
        if i > 0 \<and> length (Disposal (p_gif p)) \<le> i - 1 then Inl IndexOutOfRange
        else
          (let previousImage1 =
                 (if i > 0 \<and> Disposal (p_gif p) ! (i - 1) = DisposalPrevious
                  then DrawSrcRGBA previousImage (Bounds previousImage) currentImage (0, 0)
                  else previousImage);
               currentImage1 =
                 (if i > 0 then
                    (if Disposal (p_gif p) ! (i - 1) = DisposalBackground
                     then DrawSrcUniform currentImage (PRect (Image (p_gif p) ! (i - 1)))
                            Transparent (0, 0)
                     else if Disposal (p_gif p) ! (i - 1) = DisposalPrevious
                     then DrawSrcRGBA currentImage (Bounds currentImage) previousImage1 (0, 0)
                     else currentImage)
                  else currentImage);
               currentImage2 = DrawOverPaletted currentImage1 (Bounds currentImage1)
                                 (Image (p_gif p) ! i) (0, 0);
               imgCopy = DrawSrcRGBA (NewRGBA (Bounds currentImage2)) (Bounds currentImage2)
                           currentImage2 (0, 0)
           in case renderHalfBlock render resize p (as_image imgCopy) (i = 0 \<and> chan) of
                Inl e \<Rightarrow> Inl e
              | Inr (txt, msgs) \<Rightarrow>
                  Inr \<lparr>canvas = (currentImage2, previousImage1),
                       frames = (frames st)[i := txt], sent = sent st @ msgs\<rparr>))"

fun ProcessAllFrames_loop ::
  "styler \<Rightarrow> resizer \<Rightarrow> Processor \<Rightarrow> bool \<Rightarrow> nat list \<Rightarrow> loop_state \<Rightarrow> failure + loop_state" where
  "ProcessAllFrames_loop render resize p chan [] st = Inr st"
| "ProcessAllFrames_loop render resize p chan (i # rest) st =
     (case ProcessAllFrames_body render resize p chan i st of
        Inl e \<Rightarrow> Inl e
      | Inr st1 \<Rightarrow> ProcessAllFrames_loop render resize p chan rest st1)"

definition ProcessAllFrames ::
  "styler \<Rightarrow> resizer \<Rightarrow> Processor \<Rightarrow> bool \<Rightarrow> failure + string list \<times> progressMsg list" where
  "ProcessAllFrames render resize p chan =
     (case ProcessAllFrames_loop render resize p chan [0 ..< length (Image (p_gif p))]
             \<lparr>canvas = initial_canvases (GetGIFDimensions (p_gif p)),
              frames = replicate (length (Image (p_gif p))) [], sent = []\<rparr> of
        Inl e \<Rightarrow> Inl e
      | Inr st \<Rightarrow> Inr (frames st, sent st))"

definition canvas_bounds :: "gif \<Rightarrow> rectangle" where
  \<comment> \<open>the rectangle both canvases are allocated with\<close>
  "canvas_bounds g = Rect 0 0 (fst (getGifDimensions g)) (snd (getGifDimensions g))"

definition pixel_of :: "failure + rgba_image \<Rightarrow> point \<Rightarrow> rgba option" where
  "pixel_of r p = (case r of Inl e \<Rightarrow> None | Inr img \<Rightarrow> Some (RGBAAt img p))"

section \<open>Loading a GIF\<close>

text \<open>
  The network, the file system and the GIF decoder are outside the repository: a
  \<open>world\<close> gives what \<open>http.Get\<close>, \<open>os.Open\<close> and \<open>gif.DecodeAll\<close> answer. A Go
  result \<open>(*gif.GIF, error)\<close> is a pair of options, \<open>None\<close> for \<open>nil\<close>. An error is
  a message, or a message wrapping another error (\<open>fmt.Errorf\<close> with \<open>%w\<close>).
\<close>

datatype error = Err string | Wrapped string error

record response =
  StatusCode :: int
  Status :: string
  Body :: "8 word list"

record world =
  httpGet :: "string \<Rightarrow> error + response"
  osOpen :: "string \<Rightarrow> error + 8 word list"
  DecodeAll :: "8 word list \<Rightarrow> error + gif"

definition HasPrefix :: "string \<Rightarrow> string \<Rightarrow> bool" where
  "HasPrefix s pre = (length pre \<le> length s \<and> take (length pre) s = pre)"

definition isURL :: "string \<Rightarrow> bool" where
  "isURL s = (HasPrefix s ''http://'' \<or> HasPrefix s ''https://'')"

text \<open>
  \<open>LoadFromSource\<close> (internal/gif). On a status other than 200 it returns
  \<open>nil, err\<close>, where \<open>err\<close> is the error of \<open>http.Get\<close>, which is \<open>nil\<close> on that
  path.
\<close>

definition LoadFromSource :: "world \<Rightarrow> string \<Rightarrow> gif option \<times> error option" where
  "LoadFromSource w source =
     (case (if isURL source then
              (case httpGet w source of
                 Inl err \<Rightarrow> Inl (None, Some err)
               | Inr resp \<Rightarrow>
                   (let err = None
                    in if StatusCode resp \<noteq> 200 then Inl (None, err) else Inr (Body resp)))
            else
              (case osOpen w source of
                 Inl err \<Rightarrow> Inl (None, Some err)
               | Inr file \<Rightarrow> Inr file)) of
        Inl early \<Rightarrow> early
      | Inr reader \<Rightarrow>
          (case DecodeAll w reader of
             Inl err \<Rightarrow> (None, Some err)
           | Inr gifImage \<Rightarrow> (Some gifImage, None)))"

text \<open>\<open>loadGIF\<close> (core), which wraps every error in a message of its own.\<close>

definition loadGIF :: "world \<Rightarrow> string \<Rightarrow> gif option \<times> error option" where
  "loadGIF w source =
     (case (if isURL source then
              (case httpGet w source of
                 Inl err \<Rightarrow> Inl (None, Some (Wrapped ''failed to download: '' err))
               | Inr resp \<Rightarrow>
                   if StatusCode resp \<noteq> 200
                   then Inl (None, Some (Err (''HTTP error: '' @ Status resp)))
                   else Inr (Body resp))
            else
              (case osOpen w source of
                 Inl err \<Rightarrow> Inl (None, Some (Wrapped ''failed to open file: '' err))
               | Inr file \<Rightarrow> Inr file)) of
        Inl early \<Rightarrow> early
      | Inr reader \<Rightarrow>
          (case DecodeAll w reader of
             Inl err \<Rightarrow> (None, Some (Wrapped ''failed to decode GIF: '' err))
           | Inr gifImage \<Rightarrow> (Some gifImage, None)))"

text \<open>
  \<open>Run\<close>: it either returns the loading error, or builds the model and starts the
  interactive program on it.
\<close>

datatype run_result = Failed error | Session "gif option"

definition Run :: "world \<Rightarrow> string \<Rightarrow> run_result" where
  "Run w source =
     (case loadGIF w source of
        (gifImage, Some err) \<Rightarrow> Failed (Wrapped ''loading GIF: '' err)
      | (gifImage, None) \<Rightarrow> Session gifImage)"

text \<open>A world whose server answers every request with status 404.\<close>

definition not_found_world :: world where
  "not_found_world =
     \<lparr>httpGet = (\<lambda>url. Inr \<lparr>StatusCode = 404, Status = ''404 Not Found'', Body = []\<rparr>),
      osOpen = (\<lambda>path. Inl (Err ''no such file or directory'')),
      DecodeAll = (\<lambda>bytes. Inl (Err ''gif: unknown format''))\<rparr>"

section \<open>Examples used by the witnesses\<close>

text \<open>A styler that writes the style out in front of the text.\<close>

definition tag_styler :: styler where
  "tag_styler st txt =
     (case Foreground st of None \<Rightarrow> [] | Some c \<Rightarrow> ''fg'' @ c)
       @ (case Background st of None \<Rightarrow> [] | Some c \<Rightarrow> ''bg'' @ c) @ '':'' @ txt"

definition alpha :: "color \<Rightarrow> 32 word" where
  "alpha c = (case c of (r, g, b, a) \<Rightarrow> a)"

definition hex_of :: "color \<Rightarrow> string" where
  "hex_of c = (case c of (r, g, b, a) \<Rightarrow> hexColor r g b)"

definition red :: color where
  "red = RGBA (255, 0, 0, 255)"

definition green :: color where
  "green = RGBA (0, 255, 0, 255)"


text \<open>
  Two GIFs of two 1 by 1 frames, an opaque red pixel and then a transparent one; the
  first frame is disposed of by restoring the previous canvas in the one and by
  restoring the background in the other.
\<close>

definition red_frame :: paletted where
  "red_frame = \<lparr>PRect = Rect 0 0 1 1, PColor = (\<lambda>p. red)\<rparr>"

definition clear_frame :: paletted where
  "clear_frame = \<lparr>PRect = Rect 0 0 1 1, PColor = (\<lambda>p. Transparent)\<rparr>"

definition previous_gif :: gif where
  "previous_gif = \<lparr>Image = [red_frame, clear_frame], Delay = [10, 10],
                    Disposal = [DisposalPrevious, DisposalNone]\<rparr>"

definition background_gif :: gif where
  "background_gif = \<lparr>Image = [red_frame, clear_frame], Delay = [10, 10],
                      Disposal = [DisposalBackground, DisposalNone]\<rparr>"

text \<open>
  A GIF of three frames on a canvas of 2 by 1 pixels: a green pixel on the left that
  stays, a red pixel on the right that is to be disposed of by restoring the previous
  canvas, and a transparent pixel.
\<close>

definition green_left :: paletted where
  "green_left = \<lparr>PRect = Rect 0 0 1 1, PColor = (\<lambda>p. green)\<rparr>"

definition red_right :: paletted where
  "red_right = \<lparr>PRect = Rect 1 0 2 1, PColor = (\<lambda>p. red)\<rparr>"

definition three_frame_gif :: gif where
  "three_frame_gif = \<lparr>Image = [green_left, red_right, clear_frame], Delay = [10, 10, 10],
                       Disposal = [DisposalNone, DisposalPrevious, DisposalNone]\<rparr>"

section \<open>Properties stated about the pipeline\<close>

text \<open>
  What a run of the loop leaves to be seen from outside: the canvases and the frames.
\<close>

definition visible :: "failure + loop_state \<Rightarrow> failure + canvases \<times> string list" where
  "visible r = map_sum id (\<lambda>s. (canvas s, frames s)) r"

text \<open>
  The text of frame \<open>i\<close>: the rendering of a copy of the canvas once frame \<open>i\<close> is
  drawn, with the progress channel on frame 0 only. \<open>loop_inv\<close> is what holds on entry
  to pass \<open>k\<close> of the loop.
\<close>

definition frame_text ::
  "styler \<Rightarrow> resizer \<Rightarrow> (nat \<Rightarrow> int \<times> int) \<Rightarrow> gif \<Rightarrow> nat \<Rightarrow> failure + string" where
  "frame_text render resize wh g i =
     (case drawn_canvas g i of
        Inl e \<Rightarrow> Inl e
      | Inr drawn \<Rightarrow>
          map_sum id fst
            (renderImageHalfBlock render resize (fst (wh i)) (snd (wh i))
               (as_image (DrawSrcRGBA (NewRGBA (Bounds drawn)) (Bounds drawn) drawn (0, 0)))
               (i = 0)))"

definition loop_inv ::
  "styler \<Rightarrow> resizer \<Rightarrow> (nat \<Rightarrow> int \<times> int) \<Rightarrow> gif \<Rightarrow> nat \<Rightarrow> loop_state \<Rightarrow> bool" where
  "loop_inv render resize wh g k st =
     (canvases_before g k = Inr (canvas st) \<and> length (frames st) = length (Image g)
      \<and> (\<forall>i < k. frame_text render resize wh g i = Inr (frames st ! i)))"

text \<open>
  The invariant of the playback controller: once ready, the frame cache has one entry per
  frame of the GIF; whenever the cache is not empty, the current frame is an index into
  it; while loading, the rows reported complete do not exceed the rows reported in total.
\<close>

definition controller_inv :: "model \<Rightarrow> bool" where
  "controller_inv m =
     ((Ready m \<longrightarrow> length (Frames m) = length (Image (GIF m)))
      \<and> (Frames m \<noteq> [] \<longrightarrow> 0 \<le> CurrentFrame m \<and> CurrentFrame m < int (length (Frames m)))
      \<and> (Loading m \<longrightarrow> LoadingRows m \<le> TotalRows m))"

text \<open>
  The messages the controller can be sent. Key, timer and window-size messages come from
  the user and the framework and are arbitrary. A progress message is one of those a
  processing run over the model's GIF sends, and a completion message arrives once such
  a run has stored its frames in the model; \<open>wh\<close> is the terminal size the run saw at
  each frame.
\<close>

definition pipeline_msg ::
  "styler \<Rightarrow> resizer \<Rightarrow> (nat \<Rightarrow> int \<times> int) \<Rightarrow> model \<Rightarrow> msg \<Rightarrow> bool" where
  "pipeline_msg render resize wh m ms =
     (case ms of
        ProgressMsg p \<Rightarrow>
          (case ProcessGIF render resize wh (GIF m) of
             Inl e \<Rightarrow> False | Inr (fs, ps) \<Rightarrow> p \<in> set ps)
      | ProcessingCompleteMsg \<Rightarrow>
          (case ProcessGIF render resize wh (GIF m) of
             Inl e \<Rightarrow> False | Inr (fs, ps) \<Rightarrow> Frames m = fs)
      | _ \<Rightarrow> True)"

text \<open>
  For the witnesses: a resizer that samples the nearest pixel, the text of a cell row
  that is red above and below, and a controller loading the two-frame GIF on a terminal
  of 2 by 1 cells.
\<close>

definition nearest_resize :: resizer where
  "nearest_resize w h img =
     \<lparr>IBounds = Rect 0 0 (int w) (int h),
      IAt = (\<lambda>p. IAt img (MinX (IBounds img) + fst p * Dx (IBounds img) div int w,
                           MinY (IBounds img) + snd p * Dy (IBounds img) div int h))\<rparr>"

definition red_row :: string where
  "red_row = ''fg#ff0000bg#ff0000:'' @ upperHalf @ upperHalf @ [CHR 0x0A]"

definition red_progress :: progressMsg where
  "red_progress = \<lparr>partialFrame = red_row, rowsComplete = 1, totalRows = 1\<rparr>"

definition previous_loading :: model where
  "previous_loading = \<lparr>GIF = previous_gif, Frames = [], CurrentFrame = 0, Width = 2,
     Height = 1, Paused = False, ShowHelp = False, Ready = False, Loading = True,
     LoadingFrame = [], LoadingRows = 0, TotalRows = 0\<rparr>"

definition previous_processor :: Processor where
  "previous_processor = \<lparr>p_gif = previous_gif, p_width = 2, p_height = 1\<rparr>"

section \<open>Facts about the canvas size\<close>

lemma dims_loop_extent:
  "dims_loop (lx, ly, hx, hy) imgs =
     (Min (insert lx (set (map (\<lambda>i. MinX (PRect i)) imgs))),
      Min (insert ly (set (map (\<lambda>i. MinY (PRect i)) imgs))),
      Max (insert hx (set (map (\<lambda>i. MaxX (PRect i)) imgs))),
      Max (insert hy (set (map (\<lambda>i. MaxY (PRect i)) imgs))))"
proof (induction imgs arbitrary: lx ly hx hy)
  case Nil
  show ?case by simp
next
  case (Cons img imgs)
  have mn: "\<And>a b (S::int set). finite S \<Longrightarrow>
      Min (insert (if a < b then a else b) S) = Min (insert b (insert a S))"
    subgoal for a b S by (cases "S = {}") (auto simp: min_def)
    done
  have mx: "\<And>a b (S::int set). finite S \<Longrightarrow>
      Max (insert (if a > b then a else b) S) = Max (insert b (insert a S))"
    subgoal for a b S by (cases "S = {}") (auto simp: max_def)
    done
  show ?case
    by (simp add: dims_step_def Cons.IH mn mx)
qed

lemma wrap64_id: "is_int64 n \<Longrightarrow> wrap64 n = n"
  by (simp add: is_int64_def wrap64_def)

lemma wrap64_range: "is_int64 (wrap64 n)"
proof -
  have "0 \<le> (n + 2 ^ 63) mod 2 ^ 64" "(n + 2 ^ 63) mod 2 ^ 64 < (2 ^ 64 :: int)"
    by simp_all
  then show ?thesis
    by (simp add: is_int64_def wrap64_def)
qed

lemma getGifDimensions_wrapped:
  "getGifDimensions g =
     (wrap64 (Max (insert 0 (set (map (\<lambda>i. MaxX (PRect i)) (Image g))))
              - Min (insert 0 (set (map (\<lambda>i. MinX (PRect i)) (Image g))))),
      wrap64 (Max (insert 0 (set (map (\<lambda>i. MaxY (PRect i)) (Image g))))
              - Min (insert 0 (set (map (\<lambda>i. MinY (PRect i)) (Image g))))))"
  "GetGIFDimensions g = getGifDimensions g"
  by (simp_all add: getGifDimensions_def GetGIFDimensions_def dims_loop_extent)

lemma extent_within:
  fixes b :: int
  assumes "0 < b" and "\<forall>x \<in> set xs. - b \<le> f x \<and> f x < b"
  shows "0 \<le> Max (insert 0 (set (map f xs)))" "Max (insert 0 (set (map f xs))) < b"
    "- b \<le> Min (insert 0 (set (map f xs)))" "Min (insert 0 (set (map f xs))) \<le> 0"
proof -
  let ?S = "insert 0 (set (map f xs))"
  have fin: "finite ?S" "?S \<noteq> {}" by simp_all
  have all: "\<forall>y \<in> ?S. - b \<le> y \<and> y < b" using assms by auto
  show "0 \<le> Max ?S" by (rule Max_ge) simp_all
  show "Min ?S \<le> 0" by (rule Min_le) simp_all
  show "Max ?S < b" using Max_in [OF fin] all by blast
  show "- b \<le> Min ?S" using Min_in [OF fin] all by blast
qed

lemma diff_within:
  fixes hi lo :: int
  assumes "0 \<le> hi" and "hi < 2 ^ 62" and "- (2 ^ 62) \<le> lo" and "lo \<le> 0"
  shows "wrap64 (hi - lo) = hi - lo" and "0 \<le> hi - lo"
proof -
  show "0 \<le> hi - lo" using assms by simp
  have "is_int64 (hi - lo)" using assms by (simp add: is_int64_def)
  then show "wrap64 (hi - lo) = hi - lo" by (rule wrap64_id)
qed

lemma getGifDimensions_exact:
  assumes "frames_within (2 ^ 62) g"
  shows "getGifDimensions g =
           (Max (insert 0 (set (map (\<lambda>i. MaxX (PRect i)) (Image g))))
              - Min (insert 0 (set (map (\<lambda>i. MinX (PRect i)) (Image g)))),
            Max (insert 0 (set (map (\<lambda>i. MaxY (PRect i)) (Image g))))
              - Min (insert 0 (set (map (\<lambda>i. MinY (PRect i)) (Image g)))))"
    and "0 \<le> fst (getGifDimensions g)" and "0 \<le> snd (getGifDimensions g)"
proof -
  have r: "\<forall>img \<in> set (Image g). rect_within (2 ^ 62) (PRect img)"
    using assms by (simp add: frames_within_def list_all_iff)
  have b: "(0::int) < 2 ^ 62" by simp
  note xh = extent_within [OF b, of "Image g" "\<lambda>i. MaxX (PRect i)"]
  note xl = extent_within [OF b, of "Image g" "\<lambda>i. MinX (PRect i)"]
  note yh = extent_within [OF b, of "Image g" "\<lambda>i. MaxY (PRect i)"]
  note yl = extent_within [OF b, of "Image g" "\<lambda>i. MinY (PRect i)"]
  have hx: "\<forall>x \<in> set (Image g). - (2 ^ 62) \<le> MaxX (PRect x) \<and> MaxX (PRect x) < 2 ^ 62"
    and lx: "\<forall>x \<in> set (Image g). - (2 ^ 62) \<le> MinX (PRect x) \<and> MinX (PRect x) < 2 ^ 62"
    and hy: "\<forall>x \<in> set (Image g). - (2 ^ 62) \<le> MaxY (PRect x) \<and> MaxY (PRect x) < 2 ^ 62"
    and ly: "\<forall>x \<in> set (Image g). - (2 ^ 62) \<le> MinY (PRect x) \<and> MinY (PRect x) < 2 ^ 62"
    using r by (simp_all add: rect_within_def)
  let ?w = "Max (insert 0 (set (map (\<lambda>i. MaxX (PRect i)) (Image g))))
              - Min (insert 0 (set (map (\<lambda>i. MinX (PRect i)) (Image g))))"
  let ?h = "Max (insert 0 (set (map (\<lambda>i. MaxY (PRect i)) (Image g))))
              - Min (insert 0 (set (map (\<lambda>i. MinY (PRect i)) (Image g))))"
  have ww: "wrap64 ?w = ?w" and w: "0 \<le> ?w"
    by (rule diff_within [OF xh(1) xh(2) xl(3) xl(4), OF hx hx lx lx])+
  have wh: "wrap64 ?h = ?h" and h: "0 \<le> ?h"
    by (rule diff_within [OF yh(1) yh(2) yl(3) yl(4), OF hy hy ly ly])+
  show eq: "getGifDimensions g = (?w, ?h)"
    by (simp only: getGifDimensions_wrapped(1) ww wh)
  show "0 \<le> fst (getGifDimensions g)" "0 \<le> snd (getGifDimensions g)"
    using w h by (simp_all only: eq fst_conv snd_conv)
qed

text \<open>
  Outside that range the code's subtraction wraps: for the frame from -1 to
  \<open>2 ^ 63 - 1\<close> the width returned is \<open>- (2 ^ 63)\<close>.
\<close>

lemma getGifDimensions_wraps: "getGifDimensions wide_gif = (- (2 ^ 63), 1)"
  by (simp add: getGifDimensions_def wide_gif_def dims_step_def Rect_def wrap64_def)

text \<open>
  C4, as amended. For every frame list, the empty one included, whose coordinates lie in
  \<open>[- 2 ^ 62, 2 ^ 62)\<close>, the size returned is that of the bounding box of all frame
  rectangles together with the canvas origin (0, 0): the accumulators start at zero, so
  a minimum never rises above 0 and a maximum never falls below 0. Both copies of the
  function return the same.
\<close>

theorem getGifDimensions_origin_box:
  assumes "frames_within (2 ^ 62) g"
  shows "getGifDimensions g =
           (Max (insert 0 (set (map (\<lambda>i. MaxX (PRect i)) (Image g))))
              - Min (insert 0 (set (map (\<lambda>i. MinX (PRect i)) (Image g)))),
            Max (insert 0 (set (map (\<lambda>i. MaxY (PRect i)) (Image g))))
              - Min (insert 0 (set (map (\<lambda>i. MinY (PRect i)) (Image g)))))
         \<and> GetGIFDimensions g = getGifDimensions g"
  using getGifDimensions_exact(1) [OF assms] getGifDimensions_wrapped(2) [of g] by simp

theorem getGifDimensions_origin_box_witness:
  "frames_within (2 ^ 62) offset_gif
   \<and> getGifDimensions offset_gif = (48, 48)
   \<and> GetGIFDimensions offset_gif = (48, 48)"
proof -
  have w: "frames_within (2 ^ 62) offset_gif"
    by (simp add: frames_within_def rect_within_def offset_gif_def offset_frame_def Rect_def)
  from getGifDimensions_origin_box [OF w] show ?thesis
    using w by (simp add: offset_gif_def offset_frame_def Rect_def)
qed

text \<open>
  C4 as stated fails: for the single frame at (16, 16)-(48, 48) the bounding box of the
  frames is 32 by 32, and the code returns 48 by 48.
\<close>

theorem getGifDimensions_counterexample:
  "getGifDimensions offset_gif = (48, 48)
   \<and> bounding_box_size (Image offset_gif) = (32, 32)
   \<and> getGifDimensions offset_gif \<noteq> bounding_box_size (Image offset_gif)"
  by (simp add: getGifDimensions_def bounding_box_size_def offset_gif_def offset_frame_def
      dims_step_def Rect_def wrap64_def)

section \<open>Facts about the playback controller\<close>

text \<open>
  C9. A timed frame-advance handled while the controller is paused or not ready changes
  nothing: the model comes back as it was, and the command is \<open>nil\<close>, so no further
  timer is scheduled.
\<close>

theorem handleFrameAdvance_stale_noop:
  "Paused m \<or> \<not> Ready m \<Longrightarrow> handleFrameAdvance m = (m, NoCmd)"
  by (auto simp: handleFrameAdvance_def)

theorem handleFrameAdvance_stale_noop_witness:
  "(Paused (loading_model\<lparr>Paused := True, Ready := True, Frames := [''a'', ''b'']\<rparr>)
      \<or> \<not> Ready (loading_model\<lparr>Paused := True, Ready := True, Frames := [''a'', ''b'']\<rparr>))
   \<and> Update (loading_model\<lparr>Paused := True, Ready := True, Frames := [''a'', ''b'']\<rparr>) FrameMsg
      = (loading_model\<lparr>Paused := True, Ready := True, Frames := [''a'', ''b'']\<rparr>, NoCmd)"
  using handleFrameAdvance_stale_noop
    [of "loading_model\<lparr>Paused := True, Ready := True, Frames := [''a'', ''b'']\<rparr>"]
  by simp

text \<open>
  C2, the code at the failing input. A resize from 80 by 40 to 100 by 50 arrives while the
  first processing run is in flight, then the run completes. The resize starts no second
  run and records the new size; the completion makes the controller ready and schedules
  a frame timer, and starts no processing run either: the frames shown stay those of the
  run that was in flight.
\<close>

theorem resize_while_loading_never_reprocessed:
  "snd (handleWindowResize loading_model 100 50) = NoCmd
   \<and> Width (fst (handleWindowResize loading_model 100 50)) = 100
   \<and> Height (fst (handleWindowResize loading_model 100 50)) = 50
   \<and> Loading (fst (handleWindowResize loading_model 100 50))
   \<and> snd (Update (fst (Update loading_model (WindowSizeMsg 100 50))) ProcessingCompleteMsg)
       = TickCmd 100
   \<and> snd (Update (fst (Update loading_model (WindowSizeMsg 100 50))) ProcessingCompleteMsg)
       \<noteq> ProcessGIFCmd
   \<and> Ready (fst (Update (fst (Update loading_model (WindowSizeMsg 100 50)))
                        ProcessingCompleteMsg))"
  by (simp add: handleWindowResize_def handleProcessingComplete_def loading_model_def
      nextFrame_def one_frame_gif_def Let_def)

lemma handleProcessingComplete_starts_no_run:
  "snd (handleProcessingComplete m) \<noteq> ProcessGIFCmd"
  by (simp add: handleProcessingComplete_def nextFrame_def Let_def)

section \<open>Facts about the rasterizer\<close>

text \<open>
  C7. The glyph for a cell follows the four-case rule on the two alpha channels, where a
  pixel counts as transparent when its alpha is zero and as opaque otherwise: two blanks
  with no style; the lower half block twice with the bottom colour as foreground; the
  upper half block twice with the top colour as foreground; the upper half block twice
  with the top colour as foreground and the bottom colour as background. Both copies of
  the function agree.
\<close>

theorem renderHalfBlockChar_four_cases:
  "(alpha t = 0 \<and> alpha b = 0 \<longrightarrow> renderHalfBlockChar render t b = ''  '')
   \<and> (alpha t = 0 \<and> alpha b \<noteq> 0 \<longrightarrow>
        renderHalfBlockChar render t b
          = render \<lparr>Foreground = Some (hex_of b), Background = None\<rparr> (lowerHalf @ lowerHalf))
   \<and> (alpha t \<noteq> 0 \<and> alpha b = 0 \<longrightarrow>
        renderHalfBlockChar render t b
          = render \<lparr>Foreground = Some (hex_of t), Background = None\<rparr> (upperHalf @ upperHalf))
   \<and> (alpha t \<noteq> 0 \<and> alpha b \<noteq> 0 \<longrightarrow>
        renderHalfBlockChar render t b
          = render \<lparr>Foreground = Some (hex_of t), Background = Some (hex_of b)\<rparr>
              (upperHalf @ upperHalf))
   \<and> gif_renderHalfBlockChar render t b = renderHalfBlockChar render t b"
  by (cases t; cases b)
     (simp add: renderHalfBlockChar_def gif_renderHalfBlockChar_def alpha_def hex_of_def)

lemma red_green_values:
  "red = (0xffff, 0, 0, 0xffff)" "green = (0, 0xffff, 0, 0xffff)"
  by (simp_all add: red_def green_def RGBA_def)

lemma red_green_hex:
  "hex_of red = ''#ff0000''" "hex_of green = ''#00ff00''"
  "alpha red = 0xffff" "alpha green = 0xffff" "alpha Transparent = 0"
  by (simp_all add: red_green_values hex_of_def hexColor_def hex02_def hexdigit_def
      alpha_def Transparent_def)

theorem renderHalfBlockChar_four_cases_witness:
  "renderHalfBlockChar tag_styler Transparent Transparent = ''  ''
   \<and> renderHalfBlockChar tag_styler Transparent red = ''fg#ff0000:'' @ lowerHalf @ lowerHalf
   \<and> renderHalfBlockChar tag_styler red Transparent = ''fg#ff0000:'' @ upperHalf @ upperHalf
   \<and> renderHalfBlockChar tag_styler red green
       = ''fg#ff0000bg#00ff00:'' @ upperHalf @ upperHalf"
  using renderHalfBlockChar_four_cases [of Transparent Transparent tag_styler]
    renderHalfBlockChar_four_cases [of Transparent red tag_styler]
    renderHalfBlockChar_four_cases [of red Transparent tag_styler]
    renderHalfBlockChar_four_cases [of red green tag_styler]
  by (simp add: red_green_hex tag_styler_def)

section \<open>Facts about the sizing policy\<close>

text \<open>
  The rounding of the \<open>float64\<close> model is that of binary64: \<open>floor_log2\<close> finds the
  binade of its argument, and a rounded value has a significand of 53 bits, an exponent
  in the normal range, and lies within half a unit in the last place of the exact value.
\<close>

lemma bit_length_nonneg: "0 \<le> bit_length k"
proof (induction k rule: bit_length.induct)
  case (1 k)
  then show ?case by (subst bit_length.simps) auto
qed

lemma bit_length_pos: "0 < k \<Longrightarrow> 0 < bit_length k"
  using bit_length_nonneg [of "k div 2"] by (subst bit_length.simps) simp

lemma bit_length_bounds:
  "0 < k \<Longrightarrow> 2 ^ nat (bit_length k - 1) \<le> k \<and> k < 2 ^ nat (bit_length k)"
proof (induction k rule: bit_length.induct)
  case (1 k)
  show ?case
  proof (cases "k div 2 = 0")
    case True
    then have k1: "k = 1" using "1.prems" by linarith
    have "bit_length 1 = 1"
      by (simp add: bit_length.simps [of 1] bit_length.simps [of 0])
    then show ?thesis using k1 by simp
  next
    case False
    then have h: "0 < k div 2" using "1.prems" by linarith
    let ?b = "bit_length (k div 2)"
    have ih: "2 ^ nat (?b - 1) \<le> k div 2" "k div 2 < 2 ^ nat ?b"
      using "1.IH" h "1.prems" by auto
    have bp: "0 < ?b" using bit_length_pos [OF h] .
    have b: "bit_length k - 1 = ?b"
      using "1.prems" by (subst bit_length.simps) simp
    have e1: "nat ?b = Suc (nat (?b - 1))" using bp by linarith
    have e2: "nat (bit_length k) = Suc (nat ?b)" using bp b by linarith
    have p1: "(2::int) ^ nat (bit_length k - 1) = 2 * 2 ^ nat (?b - 1)"
      unfolding b by (subst e1) simp
    have p2: "(2::int) ^ nat (bit_length k) = 2 * 2 ^ nat ?b"
      unfolding e2 by simp
    have "2 * 2 ^ nat (?b - 1) \<le> k" using ih(1) by linarith
    moreover have "k < 2 * 2 ^ nat ?b" using ih(2) by linarith
    ultimately show ?thesis
      unfolding p1 p2 by blast
  qed
qed

lemma pow2_pos: "0 < pow2 e"
  by (simp add: pow2_def)

lemma pow2_nat: "0 \<le> e \<Longrightarrow> pow2 e = of_int (2 ^ nat e)"
  by (simp add: pow2_def)

lemma pow2_neg: "0 \<le> e \<Longrightarrow> pow2 (- e) = 1 / of_int (2 ^ nat e)"
  by (cases "e = 0") (simp_all add: pow2_def)

lemma pow2_Suc: "pow2 (e + 1) = 2 * pow2 e"
proof (cases "0 \<le> e")
  case True
  then have "nat (e + 1) = Suc (nat e)" by linarith
  then show ?thesis using True by (simp add: pow2_def)
next
  case False
  then have "nat (- e) = Suc (nat (- (e + 1)))" by linarith
  then show ?thesis using False by (auto simp: pow2_def)
qed

lemma floor_log2_bounds:
  assumes "0 < q"
  shows "pow2 (floor_log2 q) \<le> q \<and> q < pow2 (floor_log2 q + 1)"
proof (cases "1 \<le> q")
  case True
  let ?k = "\<lfloor>q\<rfloor>"
  have k: "0 < ?k" using True by linarith
  have e: "floor_log2 q = bit_length ?k - 1" using True by (simp add: floor_log2_def)
  have nn: "0 \<le> bit_length ?k - 1" using bit_length_pos [OF k] by linarith
  from bit_length_bounds [OF k]
  have lo: "(2::int) ^ nat (bit_length ?k - 1) \<le> ?k" and hi: "?k < 2 ^ nat (bit_length ?k)"
    by simp_all
  have "of_int (2 ^ nat (bit_length ?k - 1)) \<le> (of_int ?k :: rat)"
    using lo by (simp only: of_int_le_iff)
  then have l: "pow2 (bit_length ?k - 1) \<le> q"
    using pow2_nat [OF nn] by (simp add: order_trans [OF _ of_int_floor_le])
  have "?k + 1 \<le> 2 ^ nat (bit_length ?k)" using hi by linarith
  then have "(of_int (?k + 1) :: rat) \<le> of_int (2 ^ nat (bit_length ?k))"
    by (simp only: of_int_le_iff)
  moreover have "q < of_int (?k + 1)" by linarith
  ultimately have "q < of_int (2 ^ nat (bit_length ?k))" by linarith
  then have u: "q < pow2 (bit_length ?k - 1 + 1)"
    using pow2_nat [of "bit_length ?k"] bit_length_nonneg [of ?k] by simp
  show ?thesis using l u e by simp
next
  case False
  let ?x = "1 / q"
  let ?n = "\<lceil>?x\<rceil> - 1"
  have x1: "1 < ?x" using False assms by simp
  have n: "0 < ?n" using x1 by linarith
  have e: "floor_log2 q = - bit_length ?n" using False by (simp add: floor_log2_def)
  from bit_length_bounds [OF n]
  have lo: "(2::int) ^ nat (bit_length ?n - 1) \<le> ?n" and hi: "?n < 2 ^ nat (bit_length ?n)"
    by simp_all
  have bp: "0 < bit_length ?n" using bit_length_pos [OF n] .
  have "(of_int ?n :: rat) < ?x" by linarith
  moreover have "(of_int (2 ^ nat (bit_length ?n - 1)) :: rat) \<le> of_int ?n"
    using lo by (simp only: of_int_le_iff)
  ultimately have a: "(of_int (2 ^ nat (bit_length ?n - 1)) :: rat) < ?x" by linarith
  have "?n + 1 \<le> 2 ^ nat (bit_length ?n)" using hi by linarith
  then have "(of_int (?n + 1) :: rat) \<le> of_int (2 ^ nat (bit_length ?n))"
    by (simp only: of_int_le_iff)
  moreover have "?x \<le> of_int (?n + 1)" by simp
  ultimately have b: "?x \<le> (of_int (2 ^ nat (bit_length ?n)) :: rat)" by linarith
  have pos: "(0::rat) < of_int (2 ^ nat (bit_length ?n))"
    "(0::rat) < of_int (2 ^ nat (bit_length ?n - 1))" by simp_all
  have l: "pow2 (- bit_length ?n) \<le> q"
  proof -
    have "1 / (of_int (2 ^ nat (bit_length ?n)) :: rat) \<le> 1 / ?x"
      using b x1 by (intro divide_left_mono) (auto simp: assms)
    then show ?thesis
      using pow2_neg [of "bit_length ?n"] bp assms by simp
  qed
  have u: "q < pow2 (- bit_length ?n + 1)"
  proof -
    have "1 / ?x < 1 / (of_int (2 ^ nat (bit_length ?n - 1)) :: rat)"
      using a pos(2) by (intro divide_strict_left_mono) (auto simp: assms)
    moreover have "- bit_length ?n + 1 = - (bit_length ?n - 1)" by simp
    ultimately show ?thesis
      using pow2_neg [of "bit_length ?n - 1"] bp assms by simp
  qed
  show ?thesis using l u e by simp
qed


lemma pow2_powi: "pow2 e = 2 powi e"
  by (simp add: pow2_def power_int_def field_simps)

lemma pow2_add: "pow2 (a + b) = pow2 a * pow2 b"
  by (simp add: pow2_powi power_int_add)

lemma pow2_diff: "pow2 (a - b) = pow2 a / pow2 b"
  by (simp add: pow2_powi power_int_diff)

lemma round_half_even_error: "\<bar>of_int (round_half_even q) - q\<bar> \<le> 1 / 2"
proof -
  define d where "d = q - of_int \<lfloor>q\<rfloor>"
  have d: "0 \<le> d" "d < 1" unfolding d_def by linarith+
  have q: "q = of_int \<lfloor>q\<rfloor> + d" unfolding d_def by simp
  consider "d < 1 / 2" | "1 / 2 < d" | "d = 1 / 2" by linarith
  then show ?thesis
  proof cases
    case 1
    then have e: "round_half_even q = \<lfloor>q\<rfloor>"
      by (simp add: round_half_even_def Let_def d_def)
    show ?thesis
      unfolding e using 1 d unfolding d_def by linarith
  next
    case 2
    then have e: "round_half_even q = \<lfloor>q\<rfloor> + 1"
      by (simp add: round_half_even_def Let_def d_def)
    show ?thesis
      unfolding e of_int_add of_int_1 using 2 d unfolding d_def by linarith
  next
    case 3
    then have "round_half_even q = (if even \<lfloor>q\<rfloor> then \<lfloor>q\<rfloor> else \<lfloor>q\<rfloor> + 1)"
      by (simp add: round_half_even_def Let_def d_def)
    then consider "round_half_even q = \<lfloor>q\<rfloor>" | "round_half_even q = \<lfloor>q\<rfloor> + 1"
      by (cases "even \<lfloor>q\<rfloor>") simp_all
    then show ?thesis
    proof cases
      case 1
      show ?thesis
        unfolding 1 using 3 unfolding d_def by linarith
    next
      case 2
      show ?thesis
        unfolding 2 of_int_add of_int_1 using 3 unfolding d_def by linarith
    qed
  qed
qed

lemma round_half_even_range:
  assumes "of_int a \<le> q" and "q < of_int b"
  shows "a \<le> round_half_even q \<and> round_half_even q \<le> b"
proof -
  have "a \<le> \<lfloor>q\<rfloor>" using assms(1) by (simp add: le_floor_iff)
  moreover have "\<lfloor>q\<rfloor> < b" using assms(2) by (simp add: floor_less_iff)
  ultimately show ?thesis
    by (auto simp: round_half_even_def Let_def)
qed

lemma round64_sound:
  assumes "round64 q = Some r" and "q \<noteq> 0"
  shows "\<exists>n e. r = sgn q * (of_int n * pow2 (e - 52))
           \<and> 2 ^ 52 \<le> n \<and> n \<le> 2 ^ 53 \<and> - 1022 \<le> e \<and> e \<le> 1023
           \<and> pow2 e \<le> \<bar>q\<bar> \<and> \<bar>q\<bar> < pow2 (e + 1)
           \<and> \<bar>r - q\<bar> \<le> pow2 (e - 53)"
proof -
  let ?e = "floor_log2 \<bar>q\<bar>"
  let ?u = "pow2 (?e - 52)"
  let ?n = "round_half_even (\<bar>q\<bar> / ?u)"
  have r: "r = sgn q * (of_int ?n * ?u)" and range: "- 1022 \<le> ?e" "?e \<le> 1023"
    using assms by (auto simp: round64_def Let_def split: if_splits)
  have q: "0 < \<bar>q\<bar>" using assms(2) by simp
  have br: "pow2 ?e \<le> \<bar>q\<bar>" "\<bar>q\<bar> < pow2 (?e + 1)"
    using floor_log2_bounds [OF q] by simp_all
  have u: "0 < ?u" by (rule pow2_pos)
  have lo: "of_int (2 ^ 52) \<le> \<bar>q\<bar> / ?u"
  proof -
    have "pow2 ?e / ?u \<le> \<bar>q\<bar> / ?u" using br(1) u by (simp add: divide_right_mono)
    moreover have "pow2 ?e / ?u = pow2 52"
      using pow2_diff [of ?e "?e - 52"] by simp
    ultimately show ?thesis by (simp add: pow2_def)
  qed
  have hi: "\<bar>q\<bar> / ?u < of_int (2 ^ 53)"
  proof -
    have "\<bar>q\<bar> / ?u < pow2 (?e + 1) / ?u" using br(2) u by (simp add: divide_strict_right_mono)
    moreover have "pow2 (?e + 1) / ?u = pow2 53"
      using pow2_diff [of "?e + 1" "?e - 52"] by simp
    ultimately show ?thesis by (simp add: pow2_def)
  qed
  have n: "2 ^ 52 \<le> ?n" "?n \<le> 2 ^ 53"
    using round_half_even_range [OF lo hi] by simp_all
  have "\<bar>of_int ?n - \<bar>q\<bar> / ?u\<bar> * ?u \<le> 1 / 2 * ?u"
    using round_half_even_error [of "\<bar>q\<bar> / ?u"] u by (simp add: mult_right_mono)
  moreover have "\<bar>of_int ?n - \<bar>q\<bar> / ?u\<bar> * ?u = \<bar>of_int ?n * ?u - \<bar>q\<bar>\<bar>"
  proof -
    have "\<bar>of_int ?n - \<bar>q\<bar> / ?u\<bar> * ?u = \<bar>(of_int ?n - \<bar>q\<bar> / ?u) * ?u\<bar>"
      using u by (simp add: abs_mult)
    also have "(of_int ?n - \<bar>q\<bar> / ?u) * ?u = of_int ?n * ?u - \<bar>q\<bar>"
      using u by (simp add: field_simps)
    finally show ?thesis .
  qed
  moreover have "1 / 2 * ?u = pow2 (?e - 53)"
    using pow2_Suc [of "?e - 53"] by simp
  moreover have "\<bar>r - q\<bar> = \<bar>of_int ?n * ?u - \<bar>q\<bar>\<bar>"
  proof (cases "0 < q")
    case True
    then show ?thesis using r by simp
  next
    case False
    then have neg: "q < 0" using assms(2) by simp
    then have "r - q = - (of_int ?n * ?u - \<bar>q\<bar>)" using r by simp
    then show ?thesis by (simp only: abs_minus)
  qed
  ultimately have err: "\<bar>r - q\<bar> \<le> pow2 (?e - 53)" by simp
  show ?thesis
    using r n range br err by blast
qed


lemma wrap64_double: "- (2 ^ 62) \<le> H \<Longrightarrow> H < 2 ^ 62 \<Longrightarrow> wrap64 (H * 2) = H * 2"
  by (rule wrap64_id) (simp add: is_int64_def)

text \<open>
  Outside that range twice the terminal height wraps: \<open>2 ^ 62\<close> rows give the height
  \<open>- (2 ^ 63)\<close>.
\<close>

lemma calculateImageSize_wraps:
  "wrap64 (2 ^ 62 * 2) = - (2 ^ 63)"
  "\<exists>w. calculateImageSize 40 (2 ^ 62) 200 100 = Some (w, - (2 ^ 63))"
proof -
  show "wrap64 (2 ^ 62 * 2) = - (2 ^ 63)"
    by (simp add: wrap64_def)
  have "calculateImageSize 40 (2 ^ 62) 200 100 = Some (- (2 ^ 63), - (2 ^ 63))"
    by code_simp
  then show "\<exists>w. calculateImageSize 40 (2 ^ 62) 200 100 = Some (w, - (2 ^ 63))"
    by simp
qed

text \<open>
  C3, as amended. The terminal size and the image size are Go \<open>int\<close>s, and the row
  count \<open>H\<close> lies in \<open>[- 2 ^ 62, 2 ^ 62)\<close>, so that \<open>H * 2\<close> does not wrap. Whenever
  the size is determined, the available width is half the terminal's column count
  (integer division), the target height is \<open>int(float64(columns / 2) * ratio * 2)\<close>
  with \<open>ratio\<close> the source height over the source width, and if that exceeds
  \<open>rows * 2\<close> the height is \<open>rows * 2\<close> and the width is
  \<open>int(float64(height) / ratio / 2)\<close>; the height never exceeds \<open>rows * 2\<close>. Both
  copies of the function agree.
\<close>

theorem calculateImageSize_policy:
  assumes "is_int64 W" and "is_int64 dx" and "is_int64 dy"
    and "- (2 ^ 62) \<le> H" and "H < 2 ^ 62"
    and "calculateImageSize W H dx dy = Some (w, h)"
  shows "\<exists>ratio t.
           f64_div (f64_of_int dy) (f64_of_int dx) = Some ratio
           \<and> int_of_f64 (f64_mul (f64_mul (f64_of_int (go_quot W 2)) (Some ratio)) (Some 2))
               = Some t
           \<and> (if t > H * 2
               then h = H * 2
                 \<and> int_of_f64 (f64_div (f64_div (f64_of_int (H * 2)) (Some ratio)) (Some 2))
                     = Some w
               else w = go_quot W 2 \<and> h = t)
           \<and> h \<le> H * 2
           \<and> Processor_calculateImageSize \<lparr>p_gif = g, p_width = W, p_height = H\<rparr> dx dy
               = Some (w, h)"
proof -
  note hw = wrap64_double [OF assms(4) assms(5)]
  obtain t where t: "int_of_f64 (f64_mul (f64_mul (f64_of_int (go_quot W 2))
        (f64_div (f64_of_int dy) (f64_of_int dx))) (Some 2)) = Some t"
    using assms(6) by (auto simp: calculateImageSize_def Let_def split: option.splits)
  then obtain ratio where ratio: "f64_div (f64_of_int dy) (f64_of_int dx) = Some ratio"
    by (cases "f64_div (f64_of_int dy) (f64_of_int dx)")
       (auto simp: f64_mul_def int_of_f64_def split: option.splits)
  have same: "Processor_calculateImageSize \<lparr>p_gif = g, p_width = W, p_height = H\<rparr> dx dy
      = calculateImageSize W H dx dy"
    by (simp add: Processor_calculateImageSize_def calculateImageSize_def Let_def
        split: option.splits)
  show ?thesis
  proof (cases "t > H * 2")
    case True
    with assms(6) t ratio same show ?thesis
      by (auto simp: calculateImageSize_def Let_def hw split: option.splits)
  next
    case False
    with assms(6) t ratio same show ?thesis
      by (auto simp: calculateImageSize_def Let_def hw split: option.splits)
  qed
qed

lemma calculateImageSize_tall: "calculateImageSize 100 20 100 200 = Some (10, 40)"
  by code_simp

theorem calculateImageSize_policy_witness:
  "is_int64 100 \<and> is_int64 200 \<and> - (2 ^ 62) \<le> (20::int) \<and> (20::int) < 2 ^ 62
   \<and> calculateImageSize 100 20 100 200 = Some (10, 40)
   \<and> (\<exists>ratio t.
         f64_div (f64_of_int 200) (f64_of_int 100) = Some ratio
         \<and> int_of_f64 (f64_mul (f64_mul (f64_of_int (go_quot 100 2)) (Some ratio)) (Some 2))
             = Some t
         \<and> (if t > 20 * 2
             then (40::int) = 20 * 2
               \<and> int_of_f64 (f64_div (f64_div (f64_of_int (20 * 2)) (Some ratio)) (Some 2))
                   = Some 10
             else (10::int) = go_quot 100 2 \<and> 40 = t)
         \<and> (40::int) \<le> 20 * 2
         \<and> Processor_calculateImageSize \<lparr>p_gif = one_frame_gif, p_width = 100, p_height = 20\<rparr>
               100 200 = Some (10, 40))"
proof -
  have r: "is_int64 100" "is_int64 200" "- (2 ^ 62) \<le> (20::int)" "(20::int) < 2 ^ 62"
    by (simp_all add: is_int64_def)
  from calculateImageSize_policy [OF r(1) r(1) r(2) r(3) r(4) calculateImageSize_tall,
      of one_frame_gif]
  show ?thesis
    using r calculateImageSize_tall by simp
qed

text \<open>
  C3 as stated fails: on an 40 by 50 terminal and a 200 by 100 image the code takes 20
  columns as the available width and returns 20 by 20, where the stated policy (the full
  40 columns) gives 40 by 40.
\<close>

theorem calculateImageSize_counterexample:
  "calculateImageSize 40 50 200 100 = Some (20, 20)
   \<and> spec_calculateImageSize 40 50 200 100 = (40, 40)
   \<and> calculateImageSize 40 50 200 100 \<noteq> Some (spec_calculateImageSize 40 50 200 100)"
proof -
  have code: "calculateImageSize 40 50 200 100 = Some (20, 20)"
    by code_simp
  have spec: "spec_calculateImageSize 40 50 200 100 = (40, 40)"
    by (simp add: spec_calculateImageSize_def Let_def)
  show ?thesis
    by (simp add: code spec)
qed

section \<open>Facts about loading\<close>

text \<open>
  C5, the code at the failing input. The server answers 404 to a GIF requested by URL.
  \<open>loadGIF\<close> (core) returns no GIF and an error, and \<open>Run\<close> fails with it before a
  session starts; \<open>LoadFromSource\<close> (internal/gif) returns no GIF and no error.
\<close>

theorem LoadFromSource_drops_http_status:
  "isURL ''http://example.com/a.gif''
   \<and> LoadFromSource not_found_world ''http://example.com/a.gif'' = (None, None)
   \<and> loadGIF not_found_world ''http://example.com/a.gif''
       = (None, Some (Err ''HTTP error: 404 Not Found''))
   \<and> Run not_found_world ''http://example.com/a.gif''
       = Failed (Wrapped ''loading GIF: '' (Err ''HTTP error: 404 Not Found''))"
  by (simp add: LoadFromSource_def loadGIF_def Run_def not_found_world_def isURL_def
      HasPrefix_def)

lemma loadGIF_reports_status_and_decode_errors:
  assumes "isURL source" and "httpGet w source = Inr resp"
    and "StatusCode resp \<noteq> 200 \<or> (\<exists>e. DecodeAll w (Body resp) = Inl e)"
  shows "\<exists>e. loadGIF w source = (None, Some e) \<and> Run w source = Failed (Wrapped ''loading GIF: '' e)"
  using assms by (auto simp: loadGIF_def Run_def)

lemma LoadFromSource_reports_decode_errors:
  assumes "isURL source" and "httpGet w source = Inr resp"
    and "StatusCode resp = 200" and "DecodeAll w (Body resp) = Inl e"
  shows "LoadFromSource w source = (None, Some e)"
  using assms by (simp add: LoadFromSource_def)

section \<open>Facts about the compositor\<close>

lemma In_Intersect: "In p (Intersect r s) = (In p r \<and> In p s)"
  by (auto simp: In_def Intersect_def Empty_def ZR_def Let_def)

lemma In_clip:
  "In p (fst (clip dstBounds r srcBounds sp)) =
     (In p r \<and> In p dstBounds
      \<and> In (fst sp + (fst p - MinX r), snd sp + (snd p - MinY r)) srcBounds)"
  by (auto simp: clip_def Let_def In_Intersect) (auto simp: In_def Add_def)

lemma clip_source_point:
  "fst (snd (clip dstBounds r srcBounds sp)) + (fst p - MinX (fst (clip dstBounds r srcBounds sp)))
     = fst sp + (fst p - MinX r)"
  "snd (snd (clip dstBounds r srcBounds sp)) + (snd p - MinY (fst (clip dstBounds r srcBounds sp)))
     = snd sp + (snd p - MinY r)"
  by (simp_all add: clip_def Let_def)

lemma Pix_draw_pixels_clip:
  "Pix (draw_pixels dst (clip dstBounds r srcBounds sp) f) p =
     (if In p r \<and> In p dstBounds
         \<and> In (fst sp + (fst p - MinX r), snd sp + (snd p - MinY r)) srcBounds
      then f (fst sp + (fst p - MinX r), snd sp + (snd p - MinY r)) (Pix dst p)
      else Pix dst p)"
  by (simp add: draw_pixels_def split_beta clip_source_point In_clip)

lemma Bounds_draw_pixels [simp]: "Bounds (draw_pixels dst c f) = Bounds dst"
  by (simp add: draw_pixels_def split_beta)

lemma Bounds_Draw [simp]:
  "Bounds (DrawSrcRGBA dst r src sp) = Bounds dst"
  "Bounds (DrawSrcUniform dst r c sp) = Bounds dst"
  "Bounds (DrawOverPaletted dst r pal sp) = Bounds dst"
  by (simp_all add: DrawSrcRGBA_def DrawSrcUniform_def DrawOverPaletted_def)

lemma RGBAAt_DrawSrcUniform_Transparent:
  assumes "Dx r \<le> 1000000000" and "Dy r \<le> 1000000000"
  shows "RGBAAt (DrawSrcUniform dst r Transparent (0, 0)) p =
           (if In p r then (0, 0, 0, 0) else RGBAAt dst p)"
  using assms
  by (auto simp: RGBAAt_def DrawSrcUniform_def Pix_draw_pixels_clip Transparent_def
      UniformBounds_def In_def Dx_def Dy_def)

lemma RGBAAt_copy_same_bounds:
  assumes "Bounds src = Bounds dst" and "MinX (Bounds dst) = 0" and "MinY (Bounds dst) = 0"
  shows "RGBAAt (DrawSrcRGBA dst (Bounds dst) src (0, 0)) p = RGBAAt src p"
  using assms
  by (auto simp: RGBAAt_def DrawSrcRGBA_def Pix_draw_pixels_clip In_def)


text \<open>
  The canvas starts at the origin when the canvas size is not negative, which holds for
  frames whose coordinates lie in \<open>[- 2 ^ 62, 2 ^ 62)\<close>.
\<close>

lemma canvas_bounds_origin:
  assumes "frames_within (2 ^ 62) g"
  shows "MinX (canvas_bounds g) = 0" "MinY (canvas_bounds g) = 0"
  using getGifDimensions_exact(2,3) [OF assms] by (simp_all add: canvas_bounds_def Rect_def)

lemma Bounds_processFrame [simp]: "Bounds (processFrame c p src d) = Bounds c"
  by (simp add: processFrame_def)

lemma dispose_bounds:
  assumes "dispose g i st = Inr st1"
  shows "Bounds (fst st1) = Bounds (fst st) \<and> Bounds (snd st1) = Bounds (snd st)"
  using assms by (auto simp: dispose_def Let_def split: prod.splits if_splits)

lemma composite_bounds:
  assumes "composite g i st = Inr st1"
  shows "Bounds (fst st1) = Bounds (fst st) \<and> Bounds (snd st1) = Bounds (snd st)"
  using assms dispose_bounds [of g i st]
  by (auto simp: composite_def split: sum.splits prod.splits)

lemma canvases_before_bounds:
  "canvases_before g k = Inr st \<Longrightarrow>
     Bounds (fst st) = canvas_bounds g \<and> Bounds (snd st) = canvas_bounds g"
proof (induction k arbitrary: st)
  case 0
  then show ?case
    by (auto simp: initial_canvases_def NewRGBA_def canvas_bounds_def)
next
  case (Suc k)
  then obtain st0 where st0: "canvases_before g k = Inr st0" and c: "composite g k st0 = Inr st"
    by (auto split: sum.splits)
  from Suc.IH [OF st0] composite_bounds [OF c] show ?case by simp
qed

lemma dispose_total:
  "i = 0 \<or> i - 1 < length (Disposal g) \<Longrightarrow> \<exists>st1. dispose g i st = Inr st1"
  by (auto simp: dispose_def Let_def split: prod.splits)

lemma composite_total:
  "i = 0 \<or> i - 1 < length (Disposal g) \<Longrightarrow> \<exists>st1. composite g i st = Inr st1"
  using dispose_total [of i g st] by (auto simp: composite_def split: prod.splits)

lemma canvases_before_total:
  "k \<le> Suc (length (Disposal g)) \<Longrightarrow> \<exists>st. canvases_before g k = Inr st"
proof (induction k)
  case 0
  show ?case by simp
next
  case (Suc k)
  then obtain st0 where st0: "canvases_before g k = Inr st0" by auto
  have "k = 0 \<or> k - 1 < length (Disposal g)" using Suc.prems by auto
  from composite_total [OF this, of st0] st0 show ?case by auto
qed

lemma Pix_copy_same_bounds:
  assumes "Bounds src = Bounds dst" and "MinX (Bounds dst) = 0" and "MinY (Bounds dst) = 0"
  shows "Pix (DrawSrcRGBA dst (Bounds dst) src (0, 0)) p = (if In p (Bounds dst) then Pix src p else Pix dst p)"
  using assms
  by (auto simp: DrawSrcRGBA_def Pix_draw_pixels_clip In_def)

lemma save_then_restore:
  assumes "Bounds prev = Bounds cur" and "MinX (Bounds cur) = 0" and "MinY (Bounds cur) = 0"
  shows "DrawSrcRGBA cur (Bounds cur) (DrawSrcRGBA prev (Bounds prev) cur (0, 0)) (0, 0) = cur"
proof -
  let ?prev1 = "DrawSrcRGBA prev (Bounds prev) cur (0, 0)"
  have b: "Bounds ?prev1 = Bounds cur" using assms(1) by simp
  have "Pix (DrawSrcRGBA cur (Bounds cur) ?prev1 (0, 0)) = Pix cur"
  proof
    fix p
    show "Pix (DrawSrcRGBA cur (Bounds cur) ?prev1 (0, 0)) p = Pix cur p"
      using Pix_copy_same_bounds [OF b assms(2,3), of p]
        Pix_copy_same_bounds [of cur prev p] assms
      by simp
  qed
  then show ?thesis
    by (simp add: rgba_image.equality)
qed

lemma over_red: "over_pixel red (0, 0, 0, 0) = (255, 0, 0, 255)"
  by (simp add: over_pixel_def over_channel_def red_green_values(1))

lemmas canvas_eval =
  base_canvas_def drawn_canvas_def composite_def dispose_def processFrame_def
  initial_canvases_def getGifDimensions_def wrap64_def dims_step_def NewRGBA_def Rect_def
  DrawSrcRGBA_def DrawSrcUniform_def DrawOverPaletted_def Pix_draw_pixels_clip
  RGBAAt_def In_def pixel_of_def red_frame_def clear_frame_def over_red
  DisposalPrevious_def DisposalBackground_def DisposalNone_def UniformBounds_def
  Transparent_def Let_def

text \<open>
  C6. When frame \<open>i\<close> is disposed of by restoring the background and a frame \<open>i + 1\<close>
  follows, the canvas frame \<open>i + 1\<close> is drawn on is transparent at every point of
  frame \<open>i\<close>'s bounds and equal to the canvas after frame \<open>i\<close> was drawn at every
  other point. (A frame is at most a thousand million pixels wide and high; the GIF format stops at
  65535.)
\<close>

theorem restore_background_clears_frame:
  assumes "Suc i < length (Image g)"
    and "i < length (Disposal g)"
    and "Disposal g ! i = DisposalBackground"
    and "Dx (PRect (Image g ! i)) \<le> 1000000000"
    and "Dy (PRect (Image g ! i)) \<le> 1000000000"
  shows "\<exists>drawn base.
           drawn_canvas g i = Inr drawn \<and> base_canvas g (Suc i) = Inr base
           \<and> (\<forall>p. RGBAAt base p =
                  (if In p (PRect (Image g ! i)) then (0, 0, 0, 0) else RGBAAt drawn p))"
proof -
  obtain st where st: "canvases_before g (Suc i) = Inr st"
    using canvases_before_total [of "Suc i" g] assms(2) by auto
  have np: "DisposalBackground \<noteq> DisposalPrevious"
    by (simp add: DisposalBackground_def DisposalPrevious_def)
  have base: "base_canvas g (Suc i)
      = Inr (DrawSrcUniform (fst st) (PRect (Image g ! i)) Transparent (0, 0))"
    using st assms(2,3) np
    by (simp add: base_canvas_def dispose_def processFrame_def split_beta del: canvases_before.simps)
  have drawn: "drawn_canvas g i = Inr (fst st)"
    using st by (simp add: drawn_canvas_def del: canvases_before.simps)
  show ?thesis
    using base drawn RGBAAt_DrawSrcUniform_Transparent [OF assms(4,5)]
    by simp
qed


theorem restore_background_clears_frame_witness:
  "Suc 0 < length (Image background_gif)
   \<and> 0 < length (Disposal background_gif)
   \<and> Disposal background_gif ! 0 = DisposalBackground
   \<and> pixel_of (drawn_canvas background_gif 0) (0, 0) = Some (255, 0, 0, 255)
   \<and> pixel_of (base_canvas background_gif (Suc 0)) (0, 0) = Some (0, 0, 0, 0)
   \<and> (\<exists>drawn base.
         drawn_canvas background_gif 0 = Inr drawn
         \<and> base_canvas background_gif (Suc 0) = Inr base
         \<and> (\<forall>p. RGBAAt base p =
                (if In p (PRect (Image background_gif ! 0)) then (0, 0, 0, 0)
                 else RGBAAt drawn p)))"
proof -
  have h: "Suc 0 < length (Image background_gif)" "0 < length (Disposal background_gif)"
    "Disposal background_gif ! 0 = DisposalBackground"
    "Dx (PRect (Image background_gif ! 0)) \<le> 1000000000"
    "Dy (PRect (Image background_gif ! 0)) \<le> 1000000000"
    by (simp_all add: background_gif_def red_frame_def Rect_def Dx_def Dy_def)
  have d: "pixel_of (drawn_canvas background_gif 0) (0, 0) = Some (255, 0, 0, 255)"
    by (simp add: background_gif_def canvas_eval)
  have b: "pixel_of (base_canvas background_gif (Suc 0)) (0, 0) = Some (0, 0, 0, 0)"
    by (simp add: background_gif_def canvas_eval)
  show ?thesis
    using restore_background_clears_frame [OF h] h(1-3) d b by simp
qed

text \<open>
  What the code does on a frame disposed of by restoring the previous canvas: the
  snapshot is taken in the pass of the next frame, from the canvas that already holds
  frame \<open>i\<close>, so restoring it changes nothing and frame \<open>i + 1\<close> is drawn on top of
  frame \<open>i\<close>. The frames lie in \<open>[- 2 ^ 62, 2 ^ 62)\<close>, so that the canvas size is
  not negative.
\<close>

lemma restore_previous_keeps_frame:
  assumes "i < length (Disposal g)" and "Disposal g ! i = DisposalPrevious"
    and "frames_within (2 ^ 62) g"
  shows "\<exists>drawn. drawn_canvas g i = Inr drawn \<and> base_canvas g (Suc i) = Inr drawn"
proof -
  obtain st where st: "canvases_before g (Suc i) = Inr st"
    using canvases_before_total [of "Suc i" g] assms(1) by auto
  have bd: "Bounds (fst st) = canvas_bounds g" "Bounds (snd st) = canvas_bounds g"
    using canvases_before_bounds [OF st] by simp_all
  have nb: "DisposalPrevious \<noteq> DisposalBackground"
    by (simp add: DisposalBackground_def DisposalPrevious_def)
  have "base_canvas g (Suc i)
      = Inr (DrawSrcRGBA (fst st) (Bounds (fst st))
               (DrawSrcRGBA (snd st) (Bounds (snd st)) (fst st) (0, 0)) (0, 0))"
    using st assms(1,2) nb
    by (simp add: base_canvas_def dispose_def processFrame_def split_beta Let_def
        del: canvases_before.simps)
  also have "\<dots> = Inr (fst st)"
    using save_then_restore [of "snd st" "fst st"] bd canvas_bounds_origin [OF assms(3)]
    by simp
  finally show ?thesis
    using st by (simp add: drawn_canvas_def del: canvases_before.simps)
qed

lemma over_green: "over_pixel green (0, 0, 0, 0) = (0, 255, 0, 255)"
  by (simp add: over_pixel_def over_channel_def red_green_values(2))

lemmas three_eval = three_frame_gif_def green_left_def red_right_def saved_canvas_def over_green
  canvas_eval

text \<open>
  C1, the code at the failing input. Frame 1 of the three-frame GIF is a red pixel on the
  right with disposal RestorePrevious. Before it is drawn the canvas is green on the left
  and transparent on the right, so that is what frame 2 should be drawn on. In the code
  no snapshot of that canvas exists when frame 1 is drawn (the saved buffer is still the
  blank one), and the canvas frame 2 is drawn on still holds the red pixel of frame 1.
\<close>

theorem restore_previous_not_restored:
  "Disposal three_frame_gif ! Suc 0 = DisposalPrevious
   \<and> pixel_of (base_canvas three_frame_gif (Suc 0)) (0, 0) = Some (0, 255, 0, 255)
   \<and> pixel_of (base_canvas three_frame_gif (Suc 0)) (1, 0) = Some (0, 0, 0, 0)
   \<and> pixel_of (saved_canvas three_frame_gif (Suc 0)) (0, 0) = Some (0, 0, 0, 0)
   \<and> pixel_of (drawn_canvas three_frame_gif (Suc 0)) (1, 0) = Some (255, 0, 0, 255)
   \<and> pixel_of (base_canvas three_frame_gif (Suc (Suc 0))) (1, 0) = Some (255, 0, 0, 255)
   \<and> base_canvas three_frame_gif (Suc (Suc 0)) \<noteq> base_canvas three_frame_gif (Suc 0)"
proof -
  have d: "Disposal three_frame_gif ! Suc 0 = DisposalPrevious"
    by (simp add: three_frame_gif_def)
  have b0: "pixel_of (base_canvas three_frame_gif (Suc 0)) (0, 0) = Some (0, 255, 0, 255)"
    by (simp add: three_eval)
  have b1: "pixel_of (base_canvas three_frame_gif (Suc 0)) (1, 0) = Some (0, 0, 0, 0)"
    by (simp add: three_eval)
  have sv: "pixel_of (saved_canvas three_frame_gif (Suc 0)) (0, 0) = Some (0, 0, 0, 0)"
    by (simp add: three_eval)
  have dr: "pixel_of (drawn_canvas three_frame_gif (Suc 0)) (1, 0) = Some (255, 0, 0, 255)"
    by (simp add: three_eval)
  have b2: "pixel_of (base_canvas three_frame_gif (Suc (Suc 0))) (1, 0) = Some (255, 0, 0, 255)"
    by (simp add: three_eval)
  from b1 b2 have "base_canvas three_frame_gif (Suc (Suc 0)) \<noteq> base_canvas three_frame_gif (Suc 0)"
    by auto
  with d b0 b1 sv dr b2 show ?thesis by simp
qed

section \<open>Facts about the frame loop\<close>

text \<open>
  The loop and the canvases of \<open>canvases_before\<close> go together: when \<open>ProcessGIF\<close>
  returns, frame \<open>i\<close> of its result is the rendering of the canvas after frame \<open>i\<close>
  was drawn.
\<close>

lemma ProcessGIF_body_step:
  assumes "ProcessGIF_body render resize wh g k st = Inr st1"
    and "loop_inv render resize wh g k st" and "k < length (Image g)"
  shows "loop_inv render resize wh g (Suc k) st1"
proof -
  obtain c where c: "composite g k (canvas st) = Inr c"
    using assms(1) by (auto simp: ProcessGIF_body_def split: sum.splits)
  obtain cur prev where cp: "c = (cur, prev)" by (cases c)
  let ?copy = "DrawSrcRGBA (NewRGBA (Bounds cur)) (Bounds cur) cur (0, 0)"
  obtain tx ps where r: "renderImageHalfBlock render resize (fst (wh k)) (snd (wh k))
      (as_image ?copy) (k = 0) = Inr (tx, ps)"
    and st1: "st1 = \<lparr>canvas = (cur, prev), frames = (frames st)[k := tx], sent = sent st @ ps\<rparr>"
    using assms(1) c cp by (auto simp: ProcessGIF_body_def Let_def split: sum.splits)
  have before: "canvases_before g (Suc k) = Inr (cur, prev)"
    using assms(2) c cp by (simp add: loop_inv_def)
  have len: "length (frames st) = length (Image g)"
    using assms(2) by (simp add: loop_inv_def)
  have new: "frame_text render resize wh g k = Inr tx"
    using before r by (simp add: frame_text_def drawn_canvas_def del: canvases_before.simps)
  have old: "\<forall>i < k. frame_text render resize wh g i = Inr (frames st ! i)"
    using assms(2) by (simp add: loop_inv_def)
  have "\<forall>i < Suc k. frame_text render resize wh g i = Inr ((frames st)[k := tx] ! i)"
  proof (intro allI impI)
    fix i assume "i < Suc k"
    then consider "i < k" | "i = k" by linarith
    then show "frame_text render resize wh g i = Inr ((frames st)[k := tx] ! i)"
    proof cases
      case 1
      then show ?thesis using old by simp
    next
      case 2
      then show ?thesis using new len assms(3) by simp
    qed
  qed
  then show ?thesis
    using before len st1 by (simp add: loop_inv_def del: canvases_before.simps)
qed

lemma ProcessGIF_loop_steps:
  assumes "ProcessGIF_loop render resize wh g [k ..< n] st = Inr st1"
    and "loop_inv render resize wh g k st" and "k \<le> n" and "n \<le> length (Image g)"
  shows "loop_inv render resize wh g n st1"
  using assms
proof (induction "n - k" arbitrary: k st)
  case 0
  then show ?case by simp
next
  case (Suc d)
  then have kn: "k < n" by linarith
  then have u: "[k ..< n] = k # [Suc k ..< n]" by (simp add: upt_rec)
  obtain s where s: "ProcessGIF_body render resize wh g k st = Inr s"
    and l: "ProcessGIF_loop render resize wh g [Suc k ..< n] s = Inr st1"
    using Suc.prems(1) unfolding u by (auto split: sum.splits)
  have "loop_inv render resize wh g (Suc k) s"
    using ProcessGIF_body_step [OF s Suc.prems(2)] kn Suc.prems(4) by simp
  moreover have "d = n - Suc k" using Suc.hyps(2) by linarith
  ultimately show ?case
    using Suc.hyps(1) [OF _ l] kn Suc.prems(4) by simp
qed

lemma ProcessGIF_frames:
  assumes "ProcessGIF render resize wh g = Inr (fs, ps)" and "i < length (Image g)"
  shows "frame_text render resize wh g i = Inr (fs ! i)"
proof -
  let ?st = "\<lparr>canvas = initial_canvases (getGifDimensions g),
              frames = replicate (length (Image g)) [], sent = []\<rparr>"
  obtain st1 where l: "ProcessGIF_loop render resize wh g [0 ..< length (Image g)] ?st = Inr st1"
    and o: "fs = frames st1"
    using assms(1) by (auto simp: ProcessGIF_def split: sum.splits)
  have "loop_inv render resize wh g 0 ?st"
    by (simp add: loop_inv_def)
  from ProcessGIF_loop_steps [OF l this] have "loop_inv render resize wh g (length (Image g)) st1"
    by simp
  then show ?thesis
    using assms(2) o by (simp add: loop_inv_def)
qed


text \<open>A run of the pipeline, evaluated: the two-frame GIF on a terminal of 2 by 1 cells.\<close>

lemma size_1x1: "calculateImageSize 2 1 1 1 = Some (1, 2)"
  by code_simp

lemma RGBA_red: "RGBA (255, 0, 0, 255) = red"
  by (simp add: red_def)

lemma render_red:
  "renderHalfBlockChar tag_styler red red = ''fg#ff0000bg#ff0000:'' @ upperHalf @ upperHalf"
  by (simp add: renderHalfBlockChar_def red_green_values(1) tag_styler_def hexColor_def
      hex02_def hexdigit_def)

lemmas pipeline_eval =
  ProcessGIF_def ProcessGIF_body_def renderImageHalfBlock_def render_rows.simps render_row_def
  composite_def dispose_def processFrame_def
  initial_canvases_def getGifDimensions_def wrap64_def dims_step_def NewRGBA_def Rect_def
  DrawSrcRGBA_def DrawSrcUniform_def DrawOverPaletted_def Pix_draw_pixels_clip
  RGBAAt_def In_def red_frame_def clear_frame_def over_red as_image_def
  DisposalPrevious_def DisposalBackground_def DisposalNone_def UniformBounds_def
  Let_def Dx_def Dy_def size_1x1 nearest_resize_def uint_of_int_def go_quot_def go_rem_def
  RGBA_red render_red red_row_def red_progress_def

lemma over_clear: "over_pixel Transparent (255, 0, 0, 255) = (255, 0, 0, 255)"
  by (simp add: over_pixel_def over_channel_def Transparent_def)

lemma run_previous:
  "ProcessGIF tag_styler nearest_resize (\<lambda>i. (2, 1)) previous_gif
     = Inr ([red_row, red_row], [red_progress])"
  by (simp add: previous_gif_def pipeline_eval over_clear upt_rec)

section \<open>The two implementations\<close>

lemma gif_renderHalfBlockChar_eq: "gif_renderHalfBlockChar = renderHalfBlockChar"
  by (intro ext) (simp add: gif_renderHalfBlockChar_def renderHalfBlockChar_def)

lemma gif_render_row_eq: "gif_render_row = render_row"
  by (intro ext) (simp add: gif_render_row_def render_row_def gif_renderHalfBlockChar_eq)

lemma gif_render_rows_eq:
  "gif_render_rows render resized chan t y sb cr snt = render_rows render resized chan t y sb cr snt"
proof (induction render resized chan t y sb cr snt rule: render_rows.induct)
  case (1 render resized chan t y sb cr snt)
  show ?case
  proof (cases "y < MaxY (IBounds resized)")
    case True
    then show ?thesis
      using "1.IH" [OF True refl refl refl]
      by (subst gif_render_rows.simps, subst render_rows.simps)
         (simp add: Let_def gif_render_row_eq)
  next
    case False
    then show ?thesis
      by (subst gif_render_rows.simps, subst render_rows.simps) simp
  qed
qed

lemma render_rows_text:
  "fst (render_rows render resized c1 t1 y sb cr1 s1)
     = fst (render_rows render resized c2 t2 y sb cr2 s2)"
proof (induction "nat (MaxY (IBounds resized) - y)" arbitrary: y sb cr1 s1 cr2 s2 rule: less_induct)
  case less
  show ?case
  proof (cases "y < MaxY (IBounds resized)")
    case True
    have m: "nat (MaxY (IBounds resized) - (y + 2)) < nat (MaxY (IBounds resized) - y)"
      using True by auto
    show ?thesis
      using less [OF m]
      by (simp add: render_rows.simps [of render resized c1 t1 y sb cr1 s1]
          render_rows.simps [of render resized c2 t2 y sb cr2 s2] True Let_def)
  next
    case False
    then show ?thesis
      by (simp add: render_rows.simps [of render resized c1 t1 y sb cr1 s1]
          render_rows.simps [of render resized c2 t2 y sb cr2 s2])
  qed
qed

lemma Processor_calculateImageSize_eq:
  "Processor_calculateImageSize p dx dy = calculateImageSize (p_width p) (p_height p) dx dy"
  by (simp add: Processor_calculateImageSize_def calculateImageSize_def Let_def
      split: option.splits)

lemma renderHalfBlock_text:
  "map_sum id fst (renderHalfBlock render resize p img c1)
     = map_sum id fst (renderImageHalfBlock render resize (p_width p) (p_height p) img c2)"
  using render_rows_text
  by (auto simp: renderHalfBlock_def renderImageHalfBlock_def Processor_calculateImageSize_eq
      gif_render_rows_eq Let_def split: option.splits)


lemma body_eq:
  assumes "canvas st = canvas st'" and "frames st = frames st'"
  shows "visible (ProcessAllFrames_body render resize p chan i st)
       = visible (ProcessGIF_body render resize (\<lambda>i. (p_width p, p_height p)) (p_gif p) i st')"
proof -
  obtain cur prev where cp: "canvas st' = (cur, prev)" by (cases "canvas st'")
  have r: "\<And>img c1 c2. map_sum id fst (renderHalfBlock render resize p img c1)
     = map_sum id fst (renderImageHalfBlock render resize (p_width p) (p_height p) img c2)"
    by (rule renderHalfBlock_text)
  show ?thesis
  proof (cases "i > 0 \<and> length (Disposal (p_gif p)) \<le> i - 1")
    case True
    then show ?thesis
      using assms cp
      by (simp add: visible_def ProcessAllFrames_body_def ProcessGIF_body_def composite_def
          dispose_def)
  next
    case False
    define prev1 where "prev1 = (if i > 0 \<and> Disposal (p_gif p) ! (i - 1) = DisposalPrevious
                  then DrawSrcRGBA prev (Bounds prev) cur (0, 0) else prev)"
    define cur1 where "cur1 = (if i > 0 then processFrame cur prev1 (Image (p_gif p) ! (i - 1))
                        (Disposal (p_gif p) ! (i - 1)) else cur)"
    define cur2 where "cur2 = DrawOverPaletted cur1 (Bounds cur1) (Image (p_gif p) ! i) (0, 0)"
    define imgCopy where "imgCopy = DrawSrcRGBA (NewRGBA (Bounds cur2)) (Bounds cur2) cur2 (0, 0)"
    have comp: "composite (p_gif p) i (cur, prev) = Inr (cur2, prev1)"
      unfolding cur2_def cur1_def prev1_def
      using False
      by (auto simp: composite_def dispose_def Let_def)
    have A: "ProcessGIF_body render resize (\<lambda>i. (p_width p, p_height p)) (p_gif p) i st'
        = (case renderImageHalfBlock render resize (p_width p) (p_height p)
                  (as_image imgCopy) (i = 0) of
             Inl e \<Rightarrow> Inl e
           | Inr (txt, msgs) \<Rightarrow>
               Inr \<lparr>canvas = (cur2, prev1), frames = (frames st')[i := txt],
                    sent = sent st' @ msgs\<rparr>)"
      unfolding imgCopy_def
      by (simp add: ProcessGIF_body_def cp comp Let_def)
    have B: "ProcessAllFrames_body render resize p chan i st
        = (case renderHalfBlock render resize p (as_image imgCopy) (i = 0 \<and> chan) of
             Inl e \<Rightarrow> Inl e
           | Inr (txt, msgs) \<Rightarrow>
               Inr \<lparr>canvas = (cur2, prev1), frames = (frames st)[i := txt],
                    sent = sent st @ msgs\<rparr>)"
      unfolding imgCopy_def cur2_def cur1_def prev1_def
      using False assms(1) cp
      by (auto simp: ProcessAllFrames_body_def Let_def processFrame_def
          DisposalBackground_def DisposalPrevious_def cong: sum.case_cong)
    show ?thesis
      using r [of "as_image imgCopy" "i = 0 \<and> chan" "i = 0"] assms(2)
      by (auto simp: A B visible_def split: sum.splits)
  qed
qed

lemma loop_eq:
  assumes "canvas st = canvas st'" and "frames st = frames st'"
  shows "visible (ProcessAllFrames_loop render resize p chan ns st)
       = visible (ProcessGIF_loop render resize (\<lambda>i. (p_width p, p_height p)) (p_gif p) ns st')"
  using assms
proof (induction ns arbitrary: st st')
  case Nil
  then show ?case by (simp add: visible_def)
next
  case (Cons n ns)
  have b: "visible (ProcessAllFrames_body render resize p chan n st)
       = visible (ProcessGIF_body render resize (\<lambda>i. (p_width p, p_height p)) (p_gif p) n st')"
    using Cons.prems by (rule body_eq)
  show ?case
  proof (cases "ProcessAllFrames_body render resize p chan n st")
    case (Inl e)
    with b show ?thesis
      by (cases "ProcessGIF_body render resize (\<lambda>i. (p_width p, p_height p)) (p_gif p) n st'")
         (auto simp: visible_def)
  next
    case (Inr s1)
    with b obtain s2 where s2: "ProcessGIF_body render resize (\<lambda>i. (p_width p, p_height p))
        (p_gif p) n st' = Inr s2" and eq: "canvas s1 = canvas s2" "frames s1 = frames s2"
      by (cases "ProcessGIF_body render resize (\<lambda>i. (p_width p, p_height p)) (p_gif p) n st'")
         (auto simp: visible_def)
    show ?thesis
      using Cons.IH [OF eq] by (simp add: Inr s2)
  qed
qed

text \<open>
  C10. For the same image and the same terminal size, \<open>Processor.renderHalfBlock\<close> and
  \<open>model.renderImageHalfBlock\<close> return the same text, whether or not either is given a
  progress channel; and for the same GIF and terminal size, \<open>Processor.ProcessAllFrames\<close>
  and the frame loop of \<open>model.ProcessGIF\<close> produce the same list of frame strings (or
  fail alike).
\<close>

theorem pipelines_agree:
  "map_sum id fst (renderHalfBlock render resize p img c1)
     = map_sum id fst (renderImageHalfBlock render resize (p_width p) (p_height p) img c2)
   \<and> map_sum id fst (ProcessAllFrames render resize p chan)
     = map_sum id fst (ProcessGIF render resize (\<lambda>i. (p_width p, p_height p)) (p_gif p))"
proof -
  let ?st = "\<lparr>canvas = initial_canvases (getGifDimensions (p_gif p)),
              frames = replicate (length (Image (p_gif p))) [], sent = []\<rparr>"
  have d: "GetGIFDimensions (p_gif p) = getGifDimensions (p_gif p)"
    by (simp add: GetGIFDimensions_def getGifDimensions_def)
  have "visible (ProcessAllFrames_loop render resize p chan [0 ..< length (Image (p_gif p))] ?st)
      = visible (ProcessGIF_loop render resize (\<lambda>i. (p_width p, p_height p)) (p_gif p)
                  [0 ..< length (Image (p_gif p))] ?st)"
    by (rule loop_eq) simp_all
  then have "map_sum id fst (ProcessAllFrames render resize p chan)
     = map_sum id fst (ProcessGIF render resize (\<lambda>i. (p_width p, p_height p)) (p_gif p))"
    by (auto simp: ProcessAllFrames_def ProcessGIF_def d visible_def split: sum.splits)
  then show ?thesis
    using renderHalfBlock_text by blast
qed


theorem pipelines_agree_witness:
  "map_sum id fst (ProcessAllFrames tag_styler nearest_resize previous_processor False)
     = Inr [red_row, red_row]
   \<and> map_sum id fst (ProcessGIF tag_styler nearest_resize (\<lambda>i. (2, 1)) previous_gif)
     = Inr [red_row, red_row]"
  using pipelines_agree [of tag_styler nearest_resize previous_processor "as_image (NewRGBA ZR)"
      False False False] run_previous
  by (simp add: previous_processor_def)

section \<open>The invariant of the playback controller\<close>

lemma go_rem_nonneg:
  assumes "0 \<le> a" and "0 < b"
  shows "go_rem a b = a mod b"
proof -
  have "go_quot a b = a div b"
    using assms by (cases "a = 0") (simp_all add: go_quot_def)
  then show ?thesis
    by (simp add: go_rem_def minus_mult_div_eq_mod)
qed

lemma render_rows_progress:
  assumes "\<forall>p \<in> set snt. rowsComplete p \<le> totalRows p"
    and "y < MaxY (IBounds resized) \<longrightarrow> cr + (MaxY (IBounds resized) - y + 1) div 2 \<le> t"
  shows "\<forall>p \<in> set (snd (render_rows render resized chan t y sb cr snt)).
           rowsComplete p \<le> totalRows p"
  using assms
proof (induction "nat (MaxY (IBounds resized) - y)" arbitrary: y sb cr snt rule: less_induct)
  case less
  show ?case
  proof (cases "y < MaxY (IBounds resized)")
    case True
    let ?sb1 = "sb @ render_row render resized y @ [CHR 0x0A]"
    let ?snt1 = "if chan \<and> (go_rem (cr + 1) 2 = 0 \<or> y + 2 \<ge> MaxY (IBounds resized))
                 then snt @ [\<lparr>partialFrame = ?sb1, rowsComplete = cr + 1, totalRows = t\<rparr>]
                 else snt"
    have m: "nat (MaxY (IBounds resized) - (y + 2)) < nat (MaxY (IBounds resized) - y)"
      using True by linarith
    have h: "cr + (MaxY (IBounds resized) - y + 1) div 2 \<le> t"
      using less.prems(2) True by blast
    have step: "cr + 1 \<le> t"
      using h True by linarith
    have a: "\<forall>p \<in> set ?snt1. rowsComplete p \<le> totalRows p"
      using less.prems(1) step by simp
    have b: "y + 2 < MaxY (IBounds resized) \<longrightarrow>
        cr + 1 + (MaxY (IBounds resized) - (y + 2) + 1) div 2 \<le> t"
      using h by linarith
    have u: "render_rows render resized chan t y sb cr snt
        = render_rows render resized chan t (y + 2) ?sb1 (cr + 1) ?snt1"
      by (subst render_rows.simps) (simp only: True if_True Let_def)
    show ?thesis
      unfolding u by (rule less.hyps [OF m a b])
  next
    case False
    have u: "render_rows render resized chan t y sb cr snt = (sb, snt)"
      by (subst render_rows.simps) (simp only: False if_False)
    show ?thesis
      unfolding u using less.prems(1) by simp
  qed
qed


lemma renderImageHalfBlock_progress:
  assumes "renderImageHalfBlock render resize W H img chan = Inr (tx, ps)"
  shows "\<forall>p \<in> set ps. rowsComplete p \<le> totalRows p"
proof -
  obtain w h where wh: "calculateImageSize W H (Dx (IBounds img)) (Dy (IBounds img)) = Some (w, h)"
    using assms by (auto simp: renderImageHalfBlock_def split: option.splits)
  let ?r = "resize (uint_of_int w) (uint_of_int h) img"
  have q: "MinY (IBounds ?r) < MaxY (IBounds ?r) \<longrightarrow>
      go_quot (MaxY (IBounds ?r) - MinY (IBounds ?r) + 1) 2
        = (MaxY (IBounds ?r) - MinY (IBounds ?r) + 1) div 2"
    by (auto simp: go_quot_def)
  have "\<forall>p \<in> set (snd (render_rows render ?r chan
            (go_quot (MaxY (IBounds ?r) - MinY (IBounds ?r) + 1) 2) (MinY (IBounds ?r)) [] 0 [])).
          rowsComplete p \<le> totalRows p"
    by (rule render_rows_progress) (use q in auto)
  then show ?thesis
    using assms wh by (auto simp: renderImageHalfBlock_def Let_def)
qed

lemma ProcessGIF_body_inv:
  assumes "ProcessGIF_body render resize wh g i st = Inr st1"
    and "\<forall>p \<in> set (sent st). rowsComplete p \<le> totalRows p"
  shows "length (frames st1) = length (frames st)
       \<and> (\<forall>p \<in> set (sent st1). rowsComplete p \<le> totalRows p)"
proof -
  obtain c where c: "composite g i (canvas st) = Inr c"
    using assms(1) by (auto simp: ProcessGIF_body_def split: sum.splits)
  obtain cur prev where cp: "c = (cur, prev)" by (cases c)
  let ?copy = "DrawSrcRGBA (NewRGBA (Bounds cur)) (Bounds cur) cur (0, 0)"
  obtain tx ps where r: "renderImageHalfBlock render resize (fst (wh i)) (snd (wh i))
      (as_image ?copy) (i = 0) = Inr (tx, ps)"
    and st1: "st1 = \<lparr>canvas = (cur, prev), frames = (frames st)[i := tx], sent = sent st @ ps\<rparr>"
    using assms(1) c cp by (auto simp: ProcessGIF_body_def Let_def split: sum.splits)
  show ?thesis
    using renderImageHalfBlock_progress [OF r] assms(2) st1 by auto
qed

lemma ProcessGIF_loop_inv:
  assumes "ProcessGIF_loop render resize wh g ns st = Inr st1"
    and "\<forall>p \<in> set (sent st). rowsComplete p \<le> totalRows p"
  shows "length (frames st1) = length (frames st)
       \<and> (\<forall>p \<in> set (sent st1). rowsComplete p \<le> totalRows p)"
  using assms
proof (induction ns arbitrary: st)
  case Nil
  then show ?case by simp
next
  case (Cons n ns)
  then obtain s where s: "ProcessGIF_body render resize wh g n st = Inr s"
    and l: "ProcessGIF_loop render resize wh g ns s = Inr st1"
    by (auto split: sum.splits)
  from ProcessGIF_body_inv [OF s Cons.prems(2)] Cons.IH [OF l] show ?case by simp
qed

lemma ProcessGIF_output:
  assumes "ProcessGIF render resize wh g = Inr (fs, ps)"
  shows "length fs = length (Image g) \<and> (\<forall>p \<in> set ps. rowsComplete p \<le> totalRows p)"
proof -
  obtain st1 where l: "ProcessGIF_loop render resize wh g [0 ..< length (Image g)]
      \<lparr>canvas = initial_canvases (getGifDimensions g),
       frames = replicate (length (Image g)) [], sent = []\<rparr> = Inr st1"
    and o: "fs = frames st1" "ps = sent st1"
    using assms by (auto simp: ProcessGIF_def split: sum.splits)
  from ProcessGIF_loop_inv [OF l] o show ?thesis by simp
qed

lemma go_rem_index:
  assumes "0 \<le> c" and "0 < n"
  shows "0 \<le> go_rem c n" and "go_rem c n < n"
  using assms by (simp_all add: go_rem_nonneg)

lemma inv_flags [simp]:
  "controller_inv (m\<lparr>Paused := b\<rparr>) = controller_inv m"
  "controller_inv (m\<lparr>ShowHelp := b\<rparr>) = controller_inv m"
  "controller_inv (m\<lparr>Width := w\<rparr>) = controller_inv m"
  "controller_inv (m\<lparr>Height := h\<rparr>) = controller_inv m"
  by (simp_all add: controller_inv_def)

lemma inv_CurrentFrame:
  assumes "controller_inv m"
    and "Frames m \<noteq> [] \<Longrightarrow> 0 \<le> c \<and> c < int (length (Frames m))"
  shows "controller_inv (m\<lparr>CurrentFrame := c\<rparr>)"
  using assms by (simp add: controller_inv_def)

lemma inv_step_forward:
  assumes "controller_inv m" and "length (Frames m) > 0"
  shows "controller_inv (m\<lparr>CurrentFrame := go_rem (CurrentFrame m + 1) (int (length (Frames m)))\<rparr>)"
proof (rule inv_CurrentFrame [OF assms(1)])
  assume "Frames m \<noteq> []"
  then have "0 \<le> CurrentFrame m" using assms(1) by (simp add: controller_inv_def)
  then show "0 \<le> go_rem (CurrentFrame m + 1) (int (length (Frames m)))
      \<and> go_rem (CurrentFrame m + 1) (int (length (Frames m))) < int (length (Frames m))"
    using go_rem_index [of "CurrentFrame m + 1" "int (length (Frames m))"] assms(2) by simp
qed

lemma inv_step_back:
  assumes "controller_inv m" and "length (Frames m) > 0"
  shows "controller_inv (m\<lparr>CurrentFrame :=
           go_rem (CurrentFrame m - 1 + int (length (Frames m))) (int (length (Frames m)))\<rparr>)"
proof (rule inv_CurrentFrame [OF assms(1)])
  assume "Frames m \<noteq> []"
  then have "0 \<le> CurrentFrame m" using assms(1) by (simp add: controller_inv_def)
  then have "0 \<le> CurrentFrame m - 1 + int (length (Frames m))"
    using assms(2) by (cases "Frames m") auto
  then show "0 \<le> go_rem (CurrentFrame m - 1 + int (length (Frames m))) (int (length (Frames m)))
      \<and> go_rem (CurrentFrame m - 1 + int (length (Frames m))) (int (length (Frames m)))
          < int (length (Frames m))"
    using go_rem_index [of "CurrentFrame m - 1 + int (length (Frames m))"
        "int (length (Frames m))"] assms(2) by simp
qed

lemma fst_if: "fst (if c then (a, x) else (a, y)) = a"
  by simp

lemma handleKeyPress_inv:
  assumes "controller_inv m"
  shows "controller_inv (fst (handleKeyPress m key))"
proof -
  consider (k_space) "key = ''space''"
    | (k_help) "key \<noteq> ''space''" "key = ''?''"
    | (k_forward) "key \<noteq> ''space''" "key \<noteq> ''?''" "key = ''n'' \<or> key = ''right''"
    | (k_back) "key \<noteq> ''space''" "key \<noteq> ''?''" "\<not> (key = ''n'' \<or> key = ''right'')"
        "key = ''p'' \<or> key = ''left''"
    | (k_other) "key \<noteq> ''space''" "key \<noteq> ''?''" "\<not> (key = ''n'' \<or> key = ''right'')"
        "\<not> (key = ''p'' \<or> key = ''left'')"
    by blast
  then show ?thesis
  proof cases
    case k_space
    have "fst (handleKeyPress m key) = m\<lparr>Paused := \<not> Paused m\<rparr>"
      using k_space by (simp add: handleKeyPress_def Let_def)
    then show ?thesis using assms by simp
  next
    case k_help
    have "fst (handleKeyPress m key) = m\<lparr>ShowHelp := \<not> ShowHelp m\<rparr>"
      using k_help by (simp add: handleKeyPress_def Let_def)
    then show ?thesis using assms by simp
  next
    case k_forward
    have "fst (handleKeyPress m key) =
        (if length (Frames m) > 0
         then m\<lparr>Paused := True,
                CurrentFrame := go_rem (CurrentFrame m + 1) (int (length (Frames m)))\<rparr>
         else m)"
      using k_forward by (simp add: handleKeyPress_def Let_def)
    then show ?thesis
      using assms inv_step_forward [of m]
      by (cases "length (Frames m) > 0") (simp_all add: controller_inv_def)
  next
    case k_back
    have "fst (handleKeyPress m key) =
        (if length (Frames m) > 0
         then m\<lparr>Paused := True,
                CurrentFrame := go_rem (CurrentFrame m - 1 + int (length (Frames m)))
                                       (int (length (Frames m)))\<rparr>
         else m)"
      using k_back by (simp add: handleKeyPress_def Let_def)
    then show ?thesis
      using assms inv_step_back [of m]
      by (cases "length (Frames m) > 0") (simp_all add: controller_inv_def)
  next
    case k_other
    have "fst (handleKeyPress m key) = m"
      using k_other by (simp add: handleKeyPress_def Let_def)
    then show ?thesis using assms by simp
  qed
qed

lemma handleFrameAdvance_inv:
  assumes "controller_inv m"
  shows "controller_inv (fst (handleFrameAdvance m))"
proof (cases "\<not> Paused m \<and> Ready m \<and> length (Frames m) > 0")
  case True
  then have "fst (handleFrameAdvance m)
      = m\<lparr>CurrentFrame := go_rem (CurrentFrame m + 1) (int (length (Frames m)))\<rparr>"
    by (simp add: handleFrameAdvance_def Let_def)
  then show ?thesis using assms inv_step_forward [of m] True by simp
next
  case False
  then have "fst (handleFrameAdvance m) = m"
    by (auto simp: handleFrameAdvance_def)
  then show ?thesis using assms by simp
qed

lemma handleProgress_inv:
  assumes "controller_inv m" and "rowsComplete p \<le> totalRows p"
  shows "controller_inv (fst (handleProgress m p))"
  using assms by (simp add: controller_inv_def handleProgress_def)

lemma handleProcessingComplete_inv:
  assumes "length (Frames m) = length (Image (GIF m))"
  shows "controller_inv (fst (handleProcessingComplete m))"
proof -
  have "controller_inv (m\<lparr>Ready := True, Loading := False, CurrentFrame := 0\<rparr>)"
    using assms by (cases "Frames m") (auto simp: controller_inv_def)
  then show ?thesis
    by (simp add: handleProcessingComplete_def Let_def)
qed

lemma handleWindowResize_inv:
  assumes "controller_inv m"
  shows "controller_inv (fst (handleWindowResize m w h))"
proof -
  have "controller_inv (m\<lparr>Width := w, Height := h, Ready := False, Loading := True,
      LoadingFrame := [], LoadingRows := 0, TotalRows := 0, Frames := []\<rparr>)"
    by (simp add: controller_inv_def)
  then show ?thesis
    using assms by (simp add: handleWindowResize_def Let_def)
qed

text \<open>
  C8. Every transition of the controller keeps the invariant, for every message it can
  be sent: any key, timer or window-size message, the progress messages of a processing
  run, and the completion of a run that has stored its frames.
\<close>

theorem Update_preserves_invariant:
  assumes "controller_inv m" and "pipeline_msg render resize wh m ms"
  shows "controller_inv (fst (Update m ms))"
proof (cases ms)
  case (KeyMsg key)
  then show ?thesis using assms(1) by (simp add: handleKeyPress_inv)
next
  case FrameMsg
  then show ?thesis using assms(1) by (simp add: handleFrameAdvance_inv)
next
  case (ProgressMsg p)
  then obtain fs ps where "ProcessGIF render resize wh (GIF m) = Inr (fs, ps)" "p \<in> set ps"
    using assms(2) by (auto simp: pipeline_msg_def split: sum.splits)
  then have "rowsComplete p \<le> totalRows p"
    using ProcessGIF_output by blast
  then show ?thesis using assms(1) ProgressMsg by (simp add: handleProgress_inv)
next
  case ProcessingCompleteMsg
  then obtain ps where "ProcessGIF render resize wh (GIF m) = Inr (Frames m, ps)"
    using assms(2) by (auto simp: pipeline_msg_def split: sum.splits)
  then have "length (Frames m) = length (Image (GIF m))"
    using ProcessGIF_output by blast
  then show ?thesis using ProcessingCompleteMsg by (simp add: handleProcessingComplete_inv)
next
  case (WindowSizeMsg w h)
  then show ?thesis using assms(1) by (simp add: handleWindowResize_inv)
next
  case OtherMsg
  then show ?thesis using assms(1) by simp
qed


theorem Update_preserves_invariant_witness:
  "controller_inv previous_loading
   \<and> pipeline_msg tag_styler nearest_resize (\<lambda>i. (2, 1)) previous_loading
        (ProgressMsg red_progress)
   \<and> controller_inv (fst (Update previous_loading (ProgressMsg red_progress)))
   \<and> LoadingRows (fst (Update previous_loading (ProgressMsg red_progress))) = 1
   \<and> controller_inv (previous_loading\<lparr>Frames := [red_row, red_row]\<rparr>)
   \<and> pipeline_msg tag_styler nearest_resize (\<lambda>i. (2, 1))
        (previous_loading\<lparr>Frames := [red_row, red_row]\<rparr>) ProcessingCompleteMsg
   \<and> controller_inv (fst (Update (previous_loading\<lparr>Frames := [red_row, red_row]\<rparr>)
                              ProcessingCompleteMsg))
   \<and> Ready (fst (Update (previous_loading\<lparr>Frames := [red_row, red_row]\<rparr>)
                     ProcessingCompleteMsg))"
proof -
  have i1: "controller_inv previous_loading"
    by (simp add: controller_inv_def previous_loading_def)
  have m1: "pipeline_msg tag_styler nearest_resize (\<lambda>i. (2, 1)) previous_loading
      (ProgressMsg red_progress)"
    by (simp add: pipeline_msg_def previous_loading_def run_previous)
  have i2: "controller_inv (previous_loading\<lparr>Frames := [red_row, red_row]\<rparr>)"
    by (simp add: controller_inv_def previous_loading_def)
  have m2: "pipeline_msg tag_styler nearest_resize (\<lambda>i. (2, 1))
      (previous_loading\<lparr>Frames := [red_row, red_row]\<rparr>) ProcessingCompleteMsg"
    by (simp add: pipeline_msg_def previous_loading_def run_previous)
  have r1: "LoadingRows (fst (Update previous_loading (ProgressMsg red_progress))) = 1"
    by (simp add: handleProgress_def previous_loading_def red_progress_def)
  have r2: "Ready (fst (Update (previous_loading\<lparr>Frames := [red_row, red_row]\<rparr>)
      ProcessingCompleteMsg))"
    by (simp add: handleProcessingComplete_def Let_def)
  show ?thesis
    using Update_preserves_invariant [OF i1 m1] Update_preserves_invariant [OF i2 m2]
      i1 m1 i2 m2 r1 r2
    by simp
qed

end
